theory Spec2Isabelle
  imports Main
begin

section \<open>Python values\<close>

text \<open>
  The client (\<^verbatim>\<open>cybergis_compute_client/Job.py\<close>) handles values that come out of JSON
  documents and keyword arguments of any type. They are modelled by one datatype; a
  dictionary is an association list with string keys, in insertion order. Floats do not
  occur in the code paths modelled here and are left out.
\<close>

datatype pyval =
    PNone
  | PBool bool
  | PInt int
  | PStr string
  | PList "pyval list"
  | PDict "(string \<times> pyval) list"

text \<open>
  Every \<^verbatim>\<open>raise\<close> of the source and every exception of a built-in operation the
  source can run into is a value of \<open>error\<close>. The five named errors are the five
  \<^verbatim>\<open>raise Exception(...)\<close> statements of \<^verbatim>\<open>Job.py\<close>, told apart by their message.
  \<open>NoReply\<close> is not an exception: it marks a run that is still waiting for the service
  when the scripted replies are used up.
\<close>

datatype error =
    MissingConstructorFile string
  | InvalidMaintainer
  | MissingIdentity
  | ResultNotReady
  | InvalidResultLocatorFormat
  | KeyError pyval
  | IndexError
  | TypeError
  | AttributeError
  | ValueError
  | NoReply

text \<open>Truth value of a Python object, as tested by \<^verbatim>\<open>if x:\<close>.\<close>

fun truthy :: "pyval \<Rightarrow> bool" where
  "truthy PNone = False"
| "truthy (PBool b) = b"
| "truthy (PInt i) = (i \<noteq> 0)"
| "truthy (PStr s) = (s \<noteq> [])"
| "truthy (PList xs) = (xs \<noteq> [])"
| "truthy (PDict kvs) = (kvs \<noteq> [])"

text \<open>\<^verbatim>\<open>x[k]\<close> with a string key.\<close>

fun py_getitem :: "pyval \<Rightarrow> string \<Rightarrow> error + pyval" where
  "py_getitem (PDict kvs) k =
     (case map_of kvs k of None \<Rightarrow> Inl (KeyError (PStr k)) | Some v \<Rightarrow> Inr v)"
| "py_getitem v k = Inl TypeError"

text \<open>\<^verbatim>\<open>x[i]\<close> with a non-negative integer index.\<close>

fun py_index :: "pyval \<Rightarrow> nat \<Rightarrow> error + pyval" where
  "py_index (PList xs) i = (if i < length xs then Inr (xs ! i) else Inl IndexError)"
| "py_index (PStr s) i = (if i < length s then Inr (PStr [s ! i]) else Inl IndexError)"
| "py_index (PDict kvs) i = Inl (KeyError (PInt (int i)))"
| "py_index v i = Inl TypeError"

text \<open>\<^verbatim>\<open>len(x)\<close>.\<close>

fun py_len :: "pyval \<Rightarrow> error + nat" where
  "py_len (PList xs) = Inr (length xs)"
| "py_len (PStr s) = Inr (length s)"
| "py_len (PDict kvs) = Inr (length kvs)"
| "py_len v = Inl TypeError"

text \<open>\<^verbatim>\<open>d[k] = v\<close> on a dictionary: an existing key keeps its place.\<close>

fun py_setitem :: "(string \<times> pyval) list \<Rightarrow> string \<Rightarrow> pyval \<Rightarrow> (string \<times> pyval) list" where
  "py_setitem [] k v = [(k, v)]"
| "py_setitem ((k', v') # kvs) k v =
     (if k' = k then (k, v) # kvs else (k', v') # py_setitem kvs k v)"

text \<open>\<^verbatim>\<open>a + b\<close> where \<open>a\<close> is a string literal and \<open>b\<close> any object.\<close>

fun str_add :: "string \<Rightarrow> pyval \<Rightarrow> error + string" where
  "str_add a (PStr b) = Inr (a @ b)"
| "str_add a v = Inl TypeError"

text \<open>\<^verbatim>\<open>k in x\<close> for a string \<open>k\<close>: key of a dictionary, element of a list, substring
  of a string.\<close>

fun py_contains :: "pyval \<Rightarrow> string \<Rightarrow> error + bool" where
  "py_contains (PDict kvs) k = Inr (k \<in> fst ` set kvs)"
| "py_contains (PList xs) k = Inr (PStr k \<in> set xs)"
| "py_contains (PStr s) k = Inr (\<exists>i \<in> set [0..<Suc (length s)]. take (length k) (drop i s) = k)"
| "py_contains v k = Inl TypeError"

section \<open>The world outside the client\<close>

text \<open>
  Modelled from the spec: \<^verbatim>\<open>Client\<close> and \<^verbatim>\<open>JAT\<close> are imported by \<^verbatim>\<open>Job.py\<close> and are
  not among the sources. The spec gives the transport as
  \<^verbatim>\<open>request(method, path, body) -> JSON\<close>, \<^verbatim>\<open>upload(path, params, bytes) -> JSON\<close> and
  \<^verbatim>\<open>download(method, path, params, destDir) -> localPath\<close>, and the token manager as
  \<^verbatim>\<open>initialize(algorithm, jobId, secretToken)\<close> with a \<^verbatim>\<open>getAccessToken()\<close> that
  derives the token from what was configured. Both are parameters of the model. The
  transport is a script: the replies the service is going to give, in order, one per
  call; failures of the transport itself are not represented. The token is any function
  of the state of the token manager. Everything observable the client does is appended
  to one trace, so that the order of calls, output and sleeps can be stated.
\<close>

record jat =
  algorithm :: string
  jat_id :: pyval
  secretToken :: pyval

datatype call =
    Request string string pyval
  | Upload string pyval "(string \<times> string) list"
  | Download string string pyval string

datatype effect =
    Call call
  | Print string
  | PrintVal pyval
  | ClearOutput
  | ClearScreen
  | Table bool "string list" "pyval list"
  | Sleep int

record world =
  replies :: "pyval list"
  trace :: "effect list"
  files :: "string \<rightharpoonup> pyval"
  getAccessToken :: "jat \<Rightarrow> pyval"

type_synonym 'a run = "world \<Rightarrow> (error + 'a) \<times> world"

definition ret :: "'a \<Rightarrow> 'a run" where
  "ret x w = (Inr x, w)"

definition lift :: "error + 'a \<Rightarrow> 'a run" where
  "lift r w = (r, w)"

definition bnd :: "'a run \<Rightarrow> ('a \<Rightarrow> 'b run) \<Rightarrow> 'b run" where
  "bnd m f w = (case m w of (Inl e, w') \<Rightarrow> (Inl e, w') | (Inr x, w') \<Rightarrow> f x w')"

definition emit :: "effect \<Rightarrow> unit run" where
  "emit e w = (Inr (), w\<lparr>trace := trace w @ [e]\<rparr>)"

text \<open>One call to the transport: the call is recorded, the next reply is consumed.\<close>

definition transport :: "call \<Rightarrow> pyval run" where
  "transport c w =
     (case replies w of
        [] \<Rightarrow> (Inl NoReply, w\<lparr>trace := trace w @ [Call c]\<rparr>)
      | r # rs \<Rightarrow> (Inr r, w\<lparr>replies := rs, trace := trace w @ [Call c]\<rparr>))"

definition request :: "string \<Rightarrow> string \<Rightarrow> pyval \<Rightarrow> pyval run" where
  "request method path b = transport (Request method path b)"

definition upload :: "string \<Rightarrow> pyval \<Rightarrow> (string \<times> string) list \<Rightarrow> pyval run" where
  "upload path params blob = transport (Upload path params blob)"

definition download :: "string \<Rightarrow> string \<Rightarrow> pyval \<Rightarrow> string \<Rightarrow> pyval run" where
  "download method path params dir = transport (Download method path params dir)"

text \<open>\<^verbatim>\<open>time.sleep(s)\<close> refuses a negative length.\<close>

definition sleep :: "int \<Rightarrow> unit run" where
  "sleep s = (if s < 0 then lift (Inl ValueError) else emit (Sleep s))"

section \<open>The job and its construction\<close>

record job =
  maintainer :: pyval
  isJupyter :: bool
  job_id :: pyval
  hpc :: pyval
  JAT :: jat
  body :: "(string \<times> pyval) list"

text \<open>The name of the identity file of a job: \<^verbatim>\<open>'job_constructor_' + id + '.json'\<close>
  in the working directory.\<close>

definition constructor_file :: "pyval \<Rightarrow> error + string" where
  "constructor_file i =
     (case str_add ''job_constructor_'' i of Inl e \<Rightarrow> Inl e | Inr s \<Rightarrow> Inr (s @ ''.json''))"

text \<open>
  The end of \<^verbatim>\<open>__init__\<close>, common to both paths (lines 54 to 67): the warning about a
  password, then the assignments to \<^verbatim>\<open>self\<close>. \<open>m\<close> is the value \<^verbatim>\<open>self.maintainer\<close>
  received on line 17. On line 55 the three adjacent string literals are joined by the
  parser, so the first line printed is a constant and does not read \<^verbatim>\<open>id\<close>. The
  pictographs that open the printed lines are left out.
\<close>

definition init_finish :: "pyval \<Rightarrow> bool \<Rightarrow> pyval \<Rightarrow> pyval \<Rightarrow> pyval \<Rightarrow> pyval \<Rightarrow> job run" where
  "init_finish m jup i h sT password =
     bnd (if password \<noteq> PNone
          then bnd (emit (Print ''password input detected, change your code to use Job(id= + id + ) instead''))
                 (\<lambda>_. bnd (emit (Print ''it's not safe to distribute code with login credentials''))
                 (\<lambda>_. bnd (lift (str_add ''share constructor file [job_constructor_'' i))
                 (\<lambda>s2. emit (Print (s2 @ ''.json] instead'')))))
          else ret ())
       (\<lambda>_. ret \<lparr>maintainer = m, isJupyter = jup, job_id = i, hpc = h,
                 JAT = \<lparr>algorithm = ''md5'', jat_id = i, secretToken = sT\<rparr>,
                 body = [(''param'', PDict []), (''env'', PDict []), (''slurm'', PDict []),
                         (''executableFolder'', PNone)]\<rparr>)"

text \<open>
  \<^verbatim>\<open>Job.__init__(maintainer, hpc, id, user, password, client, isJupyter)\<close>. The identity
  file is kept as the JSON document it holds; \<^verbatim>\<open>json.load\<close> of what \<^verbatim>\<open>json.dump\<close>
  wrote is taken to give the document back.
\<close>

definition Job_init :: "pyval \<Rightarrow> pyval \<Rightarrow> pyval \<Rightarrow> pyval \<Rightarrow> pyval \<Rightarrow> bool \<Rightarrow> job run" where
  "Job_init maintainer_arg hpc_arg id_arg user password jup =
     (if id_arg \<noteq> PNone then
        bnd (lift (constructor_file id_arg))
          (\<lambda>name w.
             case files w name of
               Some constructor \<Rightarrow>
                 bnd (lift (py_getitem constructor ''id''))
                   (\<lambda>i. bnd (lift (py_getitem constructor ''secretToken''))
                   (\<lambda>sT. bnd (lift (py_getitem constructor ''hpc''))
                   (\<lambda>h. bnd (lift (py_getitem constructor ''maintainer''))
                   (\<lambda>m. init_finish maintainer_arg jup i h sT password)))) w
             | None \<Rightarrow> (Inl (MissingConstructorFile name), w))
      else if maintainer_arg = PNone then lift (Inl InvalidMaintainer)
      else
        let req = [(''maintainer'', maintainer_arg)];
            req = (if hpc_arg \<noteq> PNone then py_setitem req ''hpc'' hpc_arg else req);
            req = (if user = PNone then req
                   else py_setitem (py_setitem req ''user'' user) ''password'' password)
        in bnd (request ''POST'' ''/job'' (PDict req))
             (\<lambda>out. bnd (lift (py_getitem out ''hpc''))
             (\<lambda>h. bnd (lift (py_getitem out ''secretToken''))
             (\<lambda>sT. bnd (lift (py_getitem out ''id''))
             (\<lambda>i. bnd (lift (constructor_file i))
             (\<lambda>name. bnd (\<lambda>w. (Inr (), w\<lparr>files := (files w)(name \<mapsto>
                         PDict [(''secretToken'', sT), (''id'', i), (''hpc'', h),
                                (''maintainer'', maintainer_arg)])\<rparr>))
             (\<lambda>_. bnd (emit (Print (''created constructor file ['' @ name @ '']'')))
             (\<lambda>_. init_finish maintainer_arg jup i h sT password))))))))"

section \<open>Configuration\<close>

text \<open>
  \<^verbatim>\<open>Job.set(executableFolder, dataFolder, resultFolder, param, env, slurm)\<close>: each
  argument is tested with \<^verbatim>\<open>if x:\<close> and stored when the test succeeds; the resulting
  body is printed. \<^verbatim>\<open>set\<close> raises nothing, so it returns the job and the world.
\<close>

definition Job_set ::
  "job \<Rightarrow> pyval \<Rightarrow> pyval \<Rightarrow> pyval \<Rightarrow> pyval \<Rightarrow> pyval \<Rightarrow> pyval \<Rightarrow> world \<Rightarrow> job \<times> world" where
  "Job_set j executableFolder dataFolder resultFolder param env slurm w =
     (let b = body j;
          b = (if truthy executableFolder then py_setitem b ''executableFolder'' executableFolder else b);
          b = (if truthy dataFolder then py_setitem b ''dataFolder'' dataFolder else b);
          b = (if truthy resultFolder then py_setitem b ''resultFolder'' resultFolder else b);
          b = (if truthy param then py_setitem b ''param'' param else b);
          b = (if truthy env then py_setitem b ''env'' env else b);
          b = (if truthy slurm then py_setitem b ''slurm'' slurm else b)
      in (j\<lparr>body := b\<rparr>, w\<lparr>trace := trace w @ [PrintVal (PDict b)]\<rparr>))"

section \<open>Status, events and logs\<close>

text \<open>\<^verbatim>\<open>Job.status()\<close>.\<close>

definition status :: "job \<Rightarrow> pyval run" where
  "status j =
     (if job_id j = PNone then lift (Inl MissingIdentity)
      else bnd (lift (str_add ''/job/'' (job_id j)))
             (\<lambda>path w. request ''GET'' path
                (PDict [(''accessToken'', getAccessToken w (JAT j))]) w))"

text \<open>\<^verbatim>\<open>Job._clear()\<close>: the notebook output when in a notebook, then the terminal.\<close>

definition clear :: "job \<Rightarrow> unit run" where
  "clear j = bnd (if isJupyter j then emit ClearOutput else ret ()) (\<lambda>_. emit ClearScreen)"

text \<open>The three lines printed above every table (lines 148 to 150 and 179 to 181).\<close>

definition print_identity :: "job \<Rightarrow> unit run" where
  "print_identity j =
     bnd (lift (str_add ''Job ID: '' (job_id j)))
       (\<lambda>s1. bnd (emit (Print s1))
       (\<lambda>_. bnd (lift (str_add ''HPC: '' (hpc j)))
       (\<lambda>s2. bnd (emit (Print s2))
       (\<lambda>_. bnd (lift (str_add ''Maintainer: '' (maintainer j)))
       (\<lambda>s3. emit (Print s3))))))"

definition is_terminal :: "pyval \<Rightarrow> bool" where
  "is_terminal t = (t = PStr ''JOB_ENDED'' \<or> t = PStr ''JOB_FAILED'')"

text \<open>The body of the inner loop of \<^verbatim>\<open>events\<close> (lines 139 to 155), without the
  increment of \<^verbatim>\<open>startPos\<close>.\<close>

definition events_step ::
  "job \<Rightarrow> pyval \<Rightarrow> nat \<Rightarrow> pyval list \<Rightarrow> bool \<Rightarrow> (pyval list \<times> bool) run" where
  "events_step j out startPos events isEnd =
     bnd (clear j)
       (\<lambda>_. bnd (lift (py_index out startPos))
       (\<lambda>ev. bnd (lift (py_getitem ev ''type''))
       (\<lambda>t. bnd (lift (py_getitem ev ''message''))
       (\<lambda>m. bnd (lift (py_getitem ev ''createdAt''))
       (\<lambda>c. let events' = events @ [PList [t, m, c]];
                 isEnd' = (isEnd \<or> is_terminal t)
             in bnd (print_identity j)
                  (\<lambda>_. bnd (emit (Table (isJupyter j) [''types'', ''message'', ''time''] events'))
                  (\<lambda>_. ret (events', isEnd'))))))))"

text \<open>The inner loop of \<^verbatim>\<open>events\<close>: \<^verbatim>\<open>while (startPos < len(out))\<close>.\<close>

function events_batch ::
  "job \<Rightarrow> pyval \<Rightarrow> nat \<Rightarrow> pyval list \<Rightarrow> bool \<Rightarrow> world \<Rightarrow> (error + pyval list \<times> bool) \<times> world" where
  "events_batch j out startPos events isEnd w =
     (case py_len out of
        Inl e \<Rightarrow> (Inl e, w)
      | Inr n \<Rightarrow>
          if startPos < n then
            (case events_step j out startPos events isEnd w of
               (Inl e, w') \<Rightarrow> (Inl e, w')
             | (Inr (events', isEnd'), w') \<Rightarrow> events_batch j out (Suc startPos) events' isEnd' w')
          else (Inr (events, isEnd), w))"
  by pat_completeness auto
termination
  by (relation "measure (\<lambda>(j, out, startPos, events, isEnd, w).
        (case py_len out of Inl e \<Rightarrow> 0 | Inr n \<Rightarrow> n - startPos))") auto

declare events_batch.simps [simp del]

text \<open>One turn of the outer loop of \<^verbatim>\<open>events\<close> (lines 134 to 158).\<close>

definition events_poll ::
  "job \<Rightarrow> int \<Rightarrow> pyval list \<Rightarrow> bool \<Rightarrow> (pyval list \<times> bool) run" where
  "events_poll j refreshRateInSeconds events isEnd =
     bnd (status j)
       (\<lambda>st. bnd (lift (py_getitem st ''events''))
       (\<lambda>out. bnd (events_batch j out (length events) events isEnd)
       (\<lambda>(events', isEnd').
          bnd (if \<not> isEnd' then sleep refreshRateInSeconds else ret ())
            (\<lambda>_. ret (events', isEnd')))))"

text \<open>Output, sleeping and the loop bodies leave the pending replies alone; a status
  request consumes one. This is what bounds the polling loops.\<close>

lemma bnd_keeps:
  assumes "\<And>w. replies (snd (m w)) = replies w" and "\<And>x w. replies (snd (f x w)) = replies w"
  shows "replies (snd (bnd m f w)) = replies w"
proof (cases "m w")
  case (Pair r w1)
  have "replies w1 = replies w" using assms(1) [of w] Pair by simp
  then show ?thesis using Pair assms(2) by (cases r) (simp_all add: bnd_def)
qed

lemma lift_keeps: "replies (snd (lift r w)) = replies w"
  by (simp add: lift_def)

lemma ret_keeps: "replies (snd (ret x w)) = replies w"
  by (simp add: ret_def)

lemma emit_keeps: "replies (snd (emit e w)) = replies w"
  by (simp add: emit_def)

lemma sleep_keeps: "replies (snd (sleep r w)) = replies w"
  by (simp add: sleep_def lift_def emit_def)

lemma clear_keeps: "replies (snd (clear j w)) = replies w"
  unfolding clear_def by (intro bnd_keeps) (simp_all add: emit_keeps ret_keeps)

lemma print_identity_keeps: "replies (snd (print_identity j w)) = replies w"
  unfolding print_identity_def by (intro bnd_keeps lift_keeps emit_keeps)

lemma events_step_keeps: "replies (snd (events_step j out sp evs ie w)) = replies w"
  unfolding events_step_def Let_def
  by (intro bnd_keeps lift_keeps emit_keeps ret_keeps clear_keeps print_identity_keeps)

lemma events_batch_keeps: "replies (snd (events_batch j out sp evs ie w)) = replies w"
proof (induction j out sp evs ie w rule: events_batch.induct)
  case (1 j out sp evs ie w)
  show ?case
  proof (cases "py_len out")
    case (Inl e)
    then show ?thesis by (simp add: events_batch.simps)
  next
    case (Inr n)
    show ?thesis
    proof (cases "sp < n")
      case False
      with Inr show ?thesis by (simp add: events_batch.simps)
    next
      case True
      obtain r w' where st: "events_step j out sp evs ie w = (r, w')"
        by (cases "events_step j out sp evs ie w")
      have rw: "replies w' = replies w"
        using events_step_keeps [of j out sp evs ie w] st by simp
      show ?thesis
      proof (cases r)
        case (Inl e)
        with Inr True st rw show ?thesis by (simp add: events_batch.simps)
      next
        case (Inr p)
        obtain evs' ie' where p: "p = (evs', ie')" by (cases p)
        from "1.IH" [OF \<open>py_len out = Inr n\<close> True] st Inr p
        have "replies (snd (events_batch j out (Suc sp) evs' ie' w')) = replies w'" by simp
        with \<open>py_len out = Inr n\<close> True st Inr p rw show ?thesis
          by (simp add: events_batch.simps)
      qed
    qed
  qed
qed

lemma status_consumes:
  "status j w = (Inr st, w') \<Longrightarrow> length (replies w') < length (replies w)"
  by (auto simp: status_def ret_def lift_def bnd_def request_def transport_def
           split: if_splits sum.splits list.splits)

lemma events_poll_consumes:
  assumes "events_poll j rate evs ie w = (Inr x, w')"
  shows "length (replies w') < length (replies w)"
proof -
  from assms obtain st w1 where s: "status j w = (Inr st, w1)"
    by (auto simp: events_poll_def bnd_def split: sum.splits prod.splits)
  from assms s obtain out where o: "py_getitem st ''events'' = Inr out"
    by (auto simp: events_poll_def bnd_def lift_def split: sum.splits prod.splits)
  from assms s o obtain evs' ie' w2
    where b: "events_batch j out (length evs) evs ie w1 = (Inr (evs', ie'), w2)"
    by (auto simp: events_poll_def bnd_def lift_def split: sum.splits prod.splits)
  have "replies w2 = replies w1"
    using events_batch_keeps [of j out "length evs" evs ie w1] b by simp
  moreover have "replies w' = replies w2"
    using assms s o b sleep_keeps [of rate w2]
    by (auto simp: events_poll_def bnd_def lift_def ret_def split: sum.splits prod.splits if_splits)
  ultimately show ?thesis using status_consumes [OF s] by simp
qed

text \<open>The outer loop of \<^verbatim>\<open>events\<close>: \<^verbatim>\<open>while (not isEnd)\<close>. It returns \<^verbatim>\<open>None\<close>
  when it is left. A run that uses up the scripted replies without seeing the end of the
  job stops with \<open>NoReply\<close>: the source would still be polling.\<close>

function events_loop ::
  "job \<Rightarrow> int \<Rightarrow> pyval list \<Rightarrow> bool \<Rightarrow> world \<Rightarrow> (error + pyval) \<times> world" where
  "events_loop j refreshRateInSeconds events isEnd w =
     (if \<not> isEnd then
        (case events_poll j refreshRateInSeconds events isEnd w of
           (Inl e, w') \<Rightarrow> (Inl e, w')
         | (Inr (events', isEnd'), w') \<Rightarrow> events_loop j refreshRateInSeconds events' isEnd' w')
      else (Inr PNone, w))"
  by pat_completeness auto
termination
  by (relation "measure (\<lambda>(j, rate, events, isEnd, w). length (replies w))")
     (auto dest: events_poll_consumes [OF sym])

declare events_loop.simps [simp del]

text \<open>\<^verbatim>\<open>Job.events(liveOutput, refreshRateInSeconds)\<close>.\<close>

definition events :: "job \<Rightarrow> bool \<Rightarrow> int \<Rightarrow> pyval run" where
  "events j liveOutput refreshRateInSeconds =
     (if \<not> liveOutput then bnd (status j) (\<lambda>st. lift (py_getitem st ''events''))
      else events_loop j refreshRateInSeconds [] False)"

text \<open>The body of the first inner loop of \<^verbatim>\<open>logs\<close> (lines 172 to 186).\<close>

definition logs_step :: "job \<Rightarrow> pyval \<Rightarrow> nat \<Rightarrow> pyval list \<Rightarrow> (pyval list) run" where
  "logs_step j st startPos logs =
     bnd (clear j)
       (\<lambda>_. bnd (lift (py_getitem st ''logs''))
       (\<lambda>ls. bnd (lift (py_index ls startPos))
       (\<lambda>entry. bnd (lift (py_getitem entry ''message''))
       (\<lambda>m. bnd (lift (py_getitem entry ''createdAt''))
       (\<lambda>c. let logs' = logs @ [PList [m, c]]
             in bnd (print_identity j)
                  (\<lambda>_. bnd (emit (Table (isJupyter j) [''message'', ''time''] logs'))
                  (\<lambda>_. ret logs')))))))"

text \<open>The first inner loop of \<^verbatim>\<open>logs\<close>: \<^verbatim>\<open>while (startPos < len(status['logs']))\<close>.\<close>

function logs_batch ::
  "job \<Rightarrow> pyval \<Rightarrow> nat \<Rightarrow> pyval list \<Rightarrow> world \<Rightarrow> (error + pyval list) \<times> world" where
  "logs_batch j st startPos logs w =
     (case py_getitem st ''logs'' of
        Inl e \<Rightarrow> (Inl e, w)
      | Inr ls \<Rightarrow>
          (case py_len ls of
             Inl e \<Rightarrow> (Inl e, w)
           | Inr n \<Rightarrow>
               if startPos < n then
                 (case logs_step j st startPos logs w of
                    (Inl e, w') \<Rightarrow> (Inl e, w')
                  | (Inr logs', w') \<Rightarrow> logs_batch j st (Suc startPos) logs' w')
               else (Inr logs, w)))"
  by pat_completeness auto
termination
  by (relation "measure (\<lambda>(j, st, startPos, logs, w).
        (case py_getitem st ''logs'' of Inl e \<Rightarrow> 0
         | Inr ls \<Rightarrow> (case py_len ls of Inl e \<Rightarrow> 0 | Inr n \<Rightarrow> n - startPos)))") auto

declare logs_batch.simps [simp del]

text \<open>The second inner loop of \<^verbatim>\<open>logs\<close> (lines 188 to 194): the events of the status
  are scanned from the start, up to the first one that ends the job.\<close>

function logs_scan :: "pyval \<Rightarrow> nat \<Rightarrow> bool \<Rightarrow> error + bool" where
  "logs_scan st i isEnd =
     (case py_getitem st ''events'' of
        Inl e \<Rightarrow> Inl e
      | Inr evs \<Rightarrow>
          (case py_len evs of
             Inl e \<Rightarrow> Inl e
           | Inr n \<Rightarrow>
               if i < n then
                 (case py_index evs i of
                    Inl e \<Rightarrow> Inl e
                  | Inr ev \<Rightarrow>
                      (case py_getitem ev ''type'' of
                         Inl e \<Rightarrow> Inl e
                       | Inr eventType \<Rightarrow>
                           if is_terminal eventType then Inr True
                           else logs_scan st (Suc i) False))
               else Inr isEnd))"
  by pat_completeness auto
termination
  by (relation "measure (\<lambda>(st, i, isEnd).
        (case py_getitem st ''events'' of Inl e \<Rightarrow> 0
         | Inr evs \<Rightarrow> (case py_len evs of Inl e \<Rightarrow> 0 | Inr n \<Rightarrow> n - i)))") auto

declare logs_scan.simps [simp del]

text \<open>One turn of the outer loop of \<^verbatim>\<open>logs\<close> (lines 167 to 197). Line 196 reads
  \<^verbatim>\<open>if isEnd:\<close>.\<close>

definition logs_poll :: "job \<Rightarrow> int \<Rightarrow> pyval list \<Rightarrow> bool \<Rightarrow> (pyval list \<times> bool) run" where
  "logs_poll j refreshRateInSeconds logs isEnd =
     bnd (status j)
       (\<lambda>st. bnd (logs_batch j st (length logs) logs)
       (\<lambda>logs'. bnd (lift (logs_scan st 0 isEnd))
       (\<lambda>isEnd'. bnd (if isEnd' then sleep refreshRateInSeconds else ret ())
       (\<lambda>_. ret (logs', isEnd')))))"

lemma logs_step_keeps: "replies (snd (logs_step j st sp ls w)) = replies w"
  unfolding logs_step_def Let_def
  by (intro bnd_keeps lift_keeps emit_keeps ret_keeps clear_keeps print_identity_keeps)

lemma logs_batch_keeps: "replies (snd (logs_batch j st sp ls w)) = replies w"
proof (induction j st sp ls w rule: logs_batch.induct)
  case (1 j st sp ls w)
  show ?case
  proof (cases "py_getitem st ''logs''")
    case (Inl e)
    then show ?thesis by (simp add: logs_batch.simps)
  next
    case g: (Inr xs)
    show ?thesis
    proof (cases "py_len xs")
      case (Inl e)
      with g show ?thesis by (simp add: logs_batch.simps)
    next
      case n: (Inr n)
      show ?thesis
      proof (cases "sp < n")
        case False
        with g n show ?thesis by (simp add: logs_batch.simps)
      next
        case True
        obtain r w' where st: "logs_step j st sp ls w = (r, w')"
          by (cases "logs_step j st sp ls w")
        have rw: "replies w' = replies w"
          using logs_step_keeps [of j st sp ls w] st by simp
        show ?thesis
        proof (cases r)
          case (Inl e)
          with g n True st rw show ?thesis by (simp add: logs_batch.simps)
        next
          case (Inr ls')
          from "1.IH" [OF g n True] st Inr
          have "replies (snd (logs_batch j st (Suc sp) ls' w')) = replies w'" by simp
          with g n True st Inr rw show ?thesis by (simp add: logs_batch.simps)
        qed
      qed
    qed
  qed
qed

lemma logs_poll_consumes:
  assumes "logs_poll j rate ls ie w = (Inr x, w')"
  shows "length (replies w') < length (replies w)"
proof -
  from assms obtain st w1 where s: "status j w = (Inr st, w1)"
    by (auto simp: logs_poll_def bnd_def split: sum.splits prod.splits)
  from assms s obtain ls' w2 where b: "logs_batch j st (length ls) ls w1 = (Inr ls', w2)"
    by (auto simp: logs_poll_def bnd_def lift_def split: sum.splits prod.splits)
  have "replies w2 = replies w1"
    using logs_batch_keeps [of j st "length ls" ls w1] b by simp
  moreover have "replies w' = replies w2"
    using assms s b sleep_keeps [of rate w2]
    by (auto simp: logs_poll_def bnd_def lift_def ret_def split: sum.splits prod.splits if_splits)
  ultimately show ?thesis using status_consumes [OF s] by simp
qed

text \<open>The outer loop of \<^verbatim>\<open>logs\<close>: \<^verbatim>\<open>while (not isEnd)\<close>.\<close>

function logs_loop ::
  "job \<Rightarrow> int \<Rightarrow> pyval list \<Rightarrow> bool \<Rightarrow> world \<Rightarrow> (error + pyval) \<times> world" where
  "logs_loop j refreshRateInSeconds logs isEnd w =
     (if \<not> isEnd then
        (case logs_poll j refreshRateInSeconds logs isEnd w of
           (Inl e, w') \<Rightarrow> (Inl e, w')
         | (Inr (logs', isEnd'), w') \<Rightarrow> logs_loop j refreshRateInSeconds logs' isEnd' w')
      else (Inr PNone, w))"
  by pat_completeness auto
termination
  by (relation "measure (\<lambda>(j, rate, logs, isEnd, w). length (replies w))")
     (auto dest: logs_poll_consumes [OF sym])

declare logs_loop.simps [simp del]

text \<open>\<^verbatim>\<open>Job.logs(liveOutput, refreshRateInSeconds)\<close>.\<close>

definition logs :: "job \<Rightarrow> bool \<Rightarrow> int \<Rightarrow> pyval run" where
  "logs j liveOutput refreshRateInSeconds =
     (if \<not> liveOutput then bnd (status j) (\<lambda>st. lift (py_getitem st ''logs''))
      else logs_loop j refreshRateInSeconds [] False)"

section \<open>Strings and paths\<close>

text \<open>\<^verbatim>\<open>os.path.join(a, b)\<close> on a POSIX system.\<close>

definition path_join :: "string \<Rightarrow> string \<Rightarrow> string" where
  "path_join a b =
     (if b \<noteq> [] \<and> hd b = CHR ''/'' then b
      else if a = [] \<or> last a = CHR ''/'' then a @ b
      else a @ ''/'' @ b)"

text \<open>\<^verbatim>\<open>s.replace(old, new)\<close>: every occurrence of \<open>old\<close>, scanning from the left, the
  occurrences not overlapping.\<close>

function py_replace :: "string \<Rightarrow> string \<Rightarrow> string \<Rightarrow> string" where
  "py_replace old new s =
     (if old = [] then new @ concat (map (\<lambda>c. c # new) s)
      else if s = [] then []
      else if take (length old) s = old then new @ py_replace old new (drop (length old) s)
      else hd s # py_replace old new (tl s))"
  by pat_completeness auto
termination
  by (relation "measure (\<lambda>(old, new, s). length s)") auto

declare py_replace.simps [simp del]

text \<open>\<^verbatim>\<open>s.split(sep)\<close>: \<open>cur\<close> is the piece being read. An empty separator is refused,
  and only strings have the method.\<close>

function split_from :: "string \<Rightarrow> string \<Rightarrow> string \<Rightarrow> string list" where
  "split_from sep cur s =
     (if s = [] then [cur]
      else if sep \<noteq> [] \<and> take (length sep) s = sep
        then cur # split_from sep [] (drop (length sep) s)
      else split_from sep (cur @ [hd s]) (tl s))"
  by pat_completeness auto
termination
  by (relation "measure (\<lambda>(sep, cur, s). length s)") auto

declare split_from.simps [simp del]

definition str_split :: "pyval \<Rightarrow> string \<Rightarrow> error + string list" where
  "str_split v sep =
     (case v of
        PStr s \<Rightarrow> if sep = [] then Inl ValueError else Inr (split_from sep [] s)
      | _ \<Rightarrow> Inl AttributeError)"

section \<open>Packaging and upload of the executable folder\<close>

text \<open>
  The folder on disk, as \<^verbatim>\<open>os.walk\<close> and \<^verbatim>\<open>open\<close> see it: a file with its bytes, a
  directory with its entries in listing order, and the same two reached through a
  symbolic link. Dangling and cyclic links are not represented.
\<close>

datatype node =
    File string
  | Dir "(string \<times> node) list"
  | LinkFile string
  | LinkDir "(string \<times> node) list"

fun is_dir :: "node \<Rightarrow> bool" where
  "is_dir (Dir es) = True"
| "is_dir (LinkDir es) = True"
| "is_dir n = False"

fun is_link :: "node \<Rightarrow> bool" where
  "is_link (LinkFile c) = True"
| "is_link (LinkDir es) = True"
| "is_link n = False"

fun content :: "node \<Rightarrow> string" where
  "content (File c) = c"
| "content (LinkFile c) = c"
| "content n = []"

text \<open>The \<^verbatim>\<open>dirs\<close> and \<^verbatim>\<open>files\<close> of one directory; each file name comes with the
  bytes that \<^verbatim>\<open>open(os.path.join(root, f), 'rb').read()\<close> returns.\<close>

definition listing :: "(string \<times> node) list \<Rightarrow> string list \<times> (string \<times> string) list" where
  "listing es =
     (map fst (filter (\<lambda>(name, sub). is_dir sub) es),
      map (\<lambda>(name, sub). (name, content sub)) (filter (\<lambda>(name, sub). \<not> is_dir sub) es))"

text \<open>\<^verbatim>\<open>os.walk(root, followlinks=...)\<close>, top down: the triple of the directory, then
  the walk of each subdirectory; a linked subdirectory is entered only when
  \<open>followlinks\<close> is set.\<close>

fun walk :: "bool \<Rightarrow> string \<Rightarrow> node \<Rightarrow> (string \<times> string list \<times> (string \<times> string) list) list"
  and walk_into :: "bool \<Rightarrow> string \<Rightarrow> (string \<times> node) list \<Rightarrow> (string \<times> string list \<times> (string \<times> string) list) list" where
  "walk followlinks root (File c) = []"
| "walk followlinks root (LinkFile c) = []"
| "walk followlinks root (Dir es) = (root, listing es) # walk_into followlinks root es"
| "walk followlinks root (LinkDir es) = (root, listing es) # walk_into followlinks root es"
| "walk_into followlinks root [] = []"
| "walk_into followlinks root ((name, sub) # es) =
     (if is_dir sub \<and> (followlinks \<or> \<not> is_link sub)
      then walk followlinks (path_join root name) sub else [])
     @ walk_into followlinks root es"

text \<open>
  Modelled from the spec: \<^verbatim>\<open>Zip\<close> is not among the sources. The spec's Archiver has
  \<^verbatim>\<open>append(relativePath, bytes)\<close>, which stages one file's content at a path, and
  \<^verbatim>\<open>read()\<close>, which produces the archive; the format is opaque. The archive is the list
  of the staged (path, bytes) pairs, in the order of the calls to \<^verbatim>\<open>append\<close>.

  \<open>zip_folder\<close> is the loop of lines 99 to 104; \<open>folder_path\<close> is the absolute path
  that line 97 computes.
\<close>

definition zip_folder :: "string \<Rightarrow> node \<Rightarrow> (string \<times> string) list" where
  "zip_folder folder_path tree =
     concat (map (\<lambda>(root, dirs, files).
                    map (\<lambda>(f, bytes). (path_join (py_replace folder_path [] root) f, bytes)) files)
                 (walk True folder_path tree))"

text \<open>\<^verbatim>\<open>Job.uploadExecutableFolder(folder_path)\<close>. The job after the call is returned
  next to the result, also when the call raises.\<close>

definition uploadExecutableFolder ::
  "job \<Rightarrow> string \<Rightarrow> node \<Rightarrow> world \<Rightarrow> (error + pyval) \<times> job \<times> world" where
  "uploadExecutableFolder j folder_path tree w =
     (case upload ''/file'' (PDict [(''accessToken'', getAccessToken w (JAT j))])
             (zip_folder folder_path tree) w of
        (Inl e, w') \<Rightarrow> (Inl e, j, w')
      | (Inr response, w') \<Rightarrow>
          (case py_getitem response ''file'' of
             Inl e \<Rightarrow> (Inl e, j, w')
           | Inr f \<Rightarrow> (Inr response, j\<lparr>body := py_setitem (body j) ''executableFolder'' f\<rparr>, w')))"

section \<open>Retrieval of the result folder\<close>

text \<open>\<^verbatim>\<open>os.path.join(dir, fileId)\<close> where \<^verbatim>\<open>dir\<close> is the caller's argument.\<close>

definition join_dir :: "pyval \<Rightarrow> string \<Rightarrow> error + string" where
  "join_dir dir fileId = (case dir of PStr d \<Rightarrow> Inr (path_join d fileId) | _ \<Rightarrow> Inl TypeError)"

text \<open>\<^verbatim>\<open>Job.downloadResultFolder(dir)\<close>. After the two tests on the scheme the function
  ends without a \<^verbatim>\<open>return\<close>, that is, it returns \<^verbatim>\<open>None\<close>.\<close>

definition downloadResultFolder :: "job \<Rightarrow> pyval \<Rightarrow> pyval run" where
  "downloadResultFolder j dir =
     (if job_id j = PNone then lift (Inl MissingIdentity)
      else
        bnd (status j)
          (\<lambda>jobStatus. bnd (lift (py_contains jobStatus ''resultFolder''))
          (\<lambda>present.
             if \<not> present then lift (Inl ResultNotReady)
             else
               bnd (lift (py_getitem jobStatus ''resultFolder''))
                 (\<lambda>resultFolder. bnd (lift (str_split resultFolder ''://''))
                 (\<lambda>i.
                    if length i \<noteq> 2 then lift (Inl InvalidResultLocatorFormat)
                    else
                      let fileType = i ! 0; fileId = i ! 1
                      in if fileType = ''globus'' then
                           (\<lambda>w. request ''GET'' ''/file''
                                  (PDict [(''accessToken'', getAccessToken w (JAT j)),
                                          (''fileUrl'', resultFolder)]) w)
                         else if fileType = ''local'' then
                           bnd (lift (join_dir dir fileId))
                             (\<lambda>d. bnd (\<lambda>w. download ''GET'' ''/file''
                                               (PDict [(''accessToken'', getAccessToken w (JAT j)),
                                                       (''fileUrl'', resultFolder)]) d w)
                             (\<lambda>d'. bnd (lift (str_add ''file successfully downloaded under: '' d'))
                             (\<lambda>s. bnd (emit (Print s))
                             (\<lambda>_. ret d'))))
                         else ret PNone)))))"

section \<open>Worlds for the examples\<close>

definition scripted :: "pyval list \<Rightarrow> world" where
  "scripted rs = \<lparr>replies = rs, trace = [], files = Map.empty,
                  getAccessToken = (\<lambda>t. PStr ''token'')\<rparr>"

definition registration_reply :: pyval where
  "registration_reply =
     PDict [(''id'', PStr ''7''), (''hpc'', PStr ''keeling''), (''secretToken'', PStr ''s3cret'')]"

text \<open>Status replies of the shape the service gives (section 3 of the spec).\<close>

definition status_reply :: "pyval list \<Rightarrow> pyval list \<Rightarrow> pyval" where
  "status_reply evs ls = PDict [(''events'', PList evs), (''logs'', PList ls)]"

definition event :: "string \<Rightarrow> string \<Rightarrow> string \<Rightarrow> pyval" where
  "event t m c = PDict [(''type'', PStr t), (''message'', PStr m), (''createdAt'', PStr c)]"

lemmas run_defs = ret_def lift_def bnd_def emit_def transport_def request_def upload_def
  download_def sleep_def

section \<open>Construction\<close>

text \<open>
  Claim C7. Construction fails before any request in both cases of misuse. With an
  \<^verbatim>\<open>id\<close> whose identity file does not exist, \<^verbatim>\<open>__init__\<close> raises the error of the missing
  constructor file; without \<^verbatim>\<open>id\<close> and with \<^verbatim>\<open>maintainer=None\<close> it raises the error of the
  invalid maintainer. In both cases the world is returned as it was: the trace has no
  call added and no reply of the service is consumed.
\<close>

theorem construction_fails_before_any_request:
  "(files w (''job_constructor_'' @ s @ ''.json'') = None \<longrightarrow>
      Job_init m h (PStr s) u p jup w =
        (Inl (MissingConstructorFile (''job_constructor_'' @ s @ ''.json'')), w))
   \<and> Job_init PNone h PNone u p jup w = (Inl InvalidMaintainer, w)"
  by (simp add: Job_init_def constructor_file_def run_defs)

theorem construction_fails_before_any_request_witness:
  "files (scripted [registration_reply]) (''job_constructor_'' @ ''7'' @ ''.json'') = None
   \<and> Job_init PNone PNone (PStr ''7'') PNone PNone False (scripted [registration_reply])
       = (Inl (MissingConstructorFile ''job_constructor_7.json''), scripted [registration_reply])
   \<and> trace (snd (Job_init PNone PNone (PStr ''7'') PNone PNone False
                   (scripted [registration_reply]))) = []
   \<and> replies (snd (Job_init PNone PNone (PStr ''7'') PNone PNone False
                     (scripted [registration_reply]))) = [registration_reply]"
  using construction_fails_before_any_request
          [of "scripted [registration_reply]" "''7''" PNone PNone PNone PNone False]
  by (simp add: scripted_def)

text \<open>What a fresh registration leaves in the files, read off the reply of the service.\<close>

definition persisted :: "pyval \<Rightarrow> world \<Rightarrow> (string \<rightharpoonup> pyval)" where
  "persisted m w =
     (case replies w of
        [] \<Rightarrow> files w
      | out # _ \<Rightarrow>
          (case py_getitem out ''hpc'' of Inl _ \<Rightarrow> files w | Inr h \<Rightarrow>
          (case py_getitem out ''secretToken'' of Inl _ \<Rightarrow> files w | Inr sT \<Rightarrow>
          (case py_getitem out ''id'' of Inl _ \<Rightarrow> files w | Inr i \<Rightarrow>
          (case constructor_file i of Inl _ \<Rightarrow> files w | Inr name \<Rightarrow>
             (files w)(name \<mapsto> PDict [(''secretToken'', sT), (''id'', i), (''hpc'', h),
                                       (''maintainer'', m)]))))))"

lemma init_finish_files: "files (snd (init_finish m jup i h sT p w)) = files w"
  by (cases i) (simp_all add: init_finish_def run_defs)

lemma fresh_files: "m \<noteq> PNone \<Longrightarrow> files (snd (Job_init m h PNone u p jup w)) = persisted m w"
  unfolding Job_init_def persisted_def Let_def
  by (simp add: run_defs init_finish_files split: list.split sum.split prod.split)

lemma fresh_files_same:
  "files (snd (Job_init m h PNone u p1 jup w)) = files (snd (Job_init m h PNone u p2 jup w))"
proof (cases "m = PNone")
  case True
  then show ?thesis by (simp add: Job_init_def lift_def)
next
  case False
  then show ?thesis by (simp add: fresh_files)
qed

lemma init_finish_job:
  "init_finish m jup i h sT p w = (Inr j, w') \<Longrightarrow>
     j = \<lparr>maintainer = m, isJupyter = jup, job_id = i, hpc = h,
          JAT = \<lparr>algorithm = ''md5'', jat_id = i, secretToken = sT\<rparr>,
          body = [(''param'', PDict []), (''env'', PDict []), (''slurm'', PDict []),
                  (''executableFolder'', PNone)]\<rparr> \<and> files w' = files w"
  by (auto simp: init_finish_def run_defs split: if_splits sum.splits prod.splits)

lemma Job_init_fresh_unfold:
  assumes "m \<noteq> PNone" and "replies w = out # rs"
    and "w1 = w\<lparr>replies := rs, trace := trace w @ [Call (Request ''POST'' ''/job'' (PDict
          (let req = [(''maintainer'', m)];
               req = (if h \<noteq> PNone then py_setitem req ''hpc'' h else req)
           in if u = PNone then req
              else py_setitem (py_setitem req ''user'' u) ''password'' p)))]\<rparr>"
  shows "Job_init m h PNone u p jup w =
     (case py_getitem out ''hpc'' of Inl e \<Rightarrow> (Inl e, w1) | Inr h' \<Rightarrow>
      (case py_getitem out ''secretToken'' of Inl e \<Rightarrow> (Inl e, w1) | Inr sT \<Rightarrow>
      (case py_getitem out ''id'' of Inl e \<Rightarrow> (Inl e, w1) | Inr i \<Rightarrow>
      (case constructor_file i of Inl e \<Rightarrow> (Inl e, w1) | Inr name \<Rightarrow>
         init_finish m jup i h' sT p
           (w1\<lparr>files := (files w1)(name \<mapsto> PDict [(''secretToken'', sT), (''id'', i),
                  (''hpc'', h'), (''maintainer'', m)]),
               trace := trace w1 @ [Print (''created constructor file ['' @ name @ '']'')]\<rparr>)))))"
  using assms unfolding Job_init_def Let_def
  by (simp add: run_defs split: sum.split)

lemma fresh_record:
  assumes ok: "Job_init m h PNone u p jup w = (Inr j, w')"
  shows "\<exists>name. constructor_file (job_id j) = Inr name \<and>
           files w' = (files w)(name \<mapsto> PDict [(''secretToken'', secretToken (JAT j)),
              (''id'', job_id j), (''hpc'', hpc j), (''maintainer'', m)])"
proof -
  from ok have m: "m \<noteq> PNone" by (auto simp: Job_init_def lift_def split: if_splits)
  from ok m obtain out rs where r: "replies w = out # rs"
    by (cases "replies w") (simp_all add: Job_init_def Let_def run_defs)
  define w1 where "w1 = w\<lparr>replies := rs, trace := trace w @ [Call (Request ''POST'' ''/job'' (PDict
          (let req = [(''maintainer'', m)];
               req = (if h \<noteq> PNone then py_setitem req ''hpc'' h else req)
           in if u = PNone then req
              else py_setitem (py_setitem req ''user'' u) ''password'' p)))]\<rparr>"
  have f1: "files w1 = files w" by (simp add: w1_def)
  from Job_init_fresh_unfold [OF m r w1_def, of jup] ok have
    u: "(Inr j, w') =
     (case py_getitem out ''hpc'' of Inl e \<Rightarrow> (Inl e, w1) | Inr h' \<Rightarrow>
      (case py_getitem out ''secretToken'' of Inl e \<Rightarrow> (Inl e, w1) | Inr sT \<Rightarrow>
      (case py_getitem out ''id'' of Inl e \<Rightarrow> (Inl e, w1) | Inr i \<Rightarrow>
      (case constructor_file i of Inl e \<Rightarrow> (Inl e, w1) | Inr name \<Rightarrow>
         init_finish m jup i h' sT p
           (w1\<lparr>files := (files w1)(name \<mapsto> PDict [(''secretToken'', sT), (''id'', i),
                  (''hpc'', h'), (''maintainer'', m)]),
               trace := trace w1 @ [Print (''created constructor file ['' @ name @ '']'')]\<rparr>)))))"
    by simp
  from u obtain h' where h: "py_getitem out ''hpc'' = Inr h'"
    by (cases "py_getitem out ''hpc''") simp_all
  from u h obtain sT where s: "py_getitem out ''secretToken'' = Inr sT"
    by (cases "py_getitem out ''secretToken''") simp_all
  from u h s obtain i where i: "py_getitem out ''id'' = Inr i"
    by (cases "py_getitem out ''id''") simp_all
  from u h s i obtain name where n: "constructor_file i = Inr name"
    by (cases "constructor_file i") simp_all
  from u h s i n have fin: "init_finish m jup i h' sT p
           (w1\<lparr>files := (files w1)(name \<mapsto> PDict [(''secretToken'', sT), (''id'', i),
                  (''hpc'', h'), (''maintainer'', m)]),
               trace := trace w1 @ [Print (''created constructor file ['' @ name @ '']'')]\<rparr>) = (Inr j, w')"
    by simp
  from init_finish_job [OF fin] n f1 show ?thesis by simp
qed

text \<open>
  Claim C9. The identity file written at a fresh registration holds exactly the record
  of \<^verbatim>\<open>secretToken\<close>, \<^verbatim>\<open>id\<close>, \<^verbatim>\<open>hpc\<close> and \<^verbatim>\<open>maintainer\<close>, and two fresh registrations
  that differ only in the password, in front of the same replies of the service, leave
  the same files: the password is not persisted.
\<close>

theorem password_never_persisted:
  "files (snd (Job_init m h PNone u p1 jup w)) = files (snd (Job_init m h PNone u p2 jup w))
   \<and> (\<forall>j w'. Job_init m h PNone u p1 jup w = (Inr j, w') \<longrightarrow>
        (\<exists>name. constructor_file (job_id j) = Inr name \<and>
           files w' = (files w)(name \<mapsto> PDict [(''secretToken'', secretToken (JAT j)),
              (''id'', job_id j), (''hpc'', hpc j), (''maintainer'', m)])))"
  using fresh_files_same fresh_record by blast

theorem password_never_persisted_witness:
  "fst (Job_init (PStr ''SUMMA'') PNone PNone (PStr ''alice'') (PStr ''hunter2'') False
          (scripted [registration_reply]))
     = Inr \<lparr>maintainer = PStr ''SUMMA'', isJupyter = False, job_id = PStr ''7'',
            hpc = PStr ''keeling'',
            JAT = \<lparr>algorithm = ''md5'', jat_id = PStr ''7'', secretToken = PStr ''s3cret''\<rparr>,
            body = [(''param'', PDict []), (''env'', PDict []), (''slurm'', PDict []),
                    (''executableFolder'', PNone)]\<rparr>
   \<and> files (snd (Job_init (PStr ''SUMMA'') PNone PNone (PStr ''alice'') (PStr ''hunter2'') False
                   (scripted [registration_reply])))
     = [''job_constructor_7.json'' \<mapsto>
          PDict [(''secretToken'', PStr ''s3cret''), (''id'', PStr ''7''),
                 (''hpc'', PStr ''keeling''), (''maintainer'', PStr ''SUMMA'')]]
   \<and> files (snd (Job_init (PStr ''SUMMA'') PNone PNone (PStr ''alice'') PNone False
                   (scripted [registration_reply])))
     = [''job_constructor_7.json'' \<mapsto>
          PDict [(''secretToken'', PStr ''s3cret''), (''id'', PStr ''7''),
                 (''hpc'', PStr ''keeling''), (''maintainer'', PStr ''SUMMA'')]]"
proof -
  let ?run = "Job_init (PStr ''SUMMA'') PNone PNone (PStr ''alice'') (PStr ''hunter2'') False
                (scripted [registration_reply])"
  let ?j = "\<lparr>maintainer = PStr ''SUMMA'', isJupyter = False, job_id = PStr ''7'',
            hpc = PStr ''keeling'',
            JAT = \<lparr>algorithm = ''md5'', jat_id = PStr ''7'', secretToken = PStr ''s3cret''\<rparr>,
            body = [(''param'', PDict []), (''env'', PDict []), (''slurm'', PDict []),
                    (''executableFolder'', PNone)]\<rparr>"
  have ok: "fst ?run = Inr ?j"
    by (simp add: Job_init_def Let_def init_finish_def constructor_file_def run_defs
          scripted_def registration_reply_def)
  then have run: "?run = (Inr ?j, snd ?run)"
    by (metis prod.collapse)
  from password_never_persisted [of "PStr ''SUMMA''" PNone "PStr ''alice''" "PStr ''hunter2''"
         False "scripted [registration_reply]" PNone] run
  have same: "files (snd ?run) = files (snd (Job_init (PStr ''SUMMA'') PNone PNone (PStr ''alice'')
                 PNone False (scripted [registration_reply])))"
    and written: "\<exists>name. constructor_file (job_id ?j) = Inr name \<and>
           files (snd ?run) = (files (scripted [registration_reply]))(name \<mapsto>
             PDict [(''secretToken'', secretToken (JAT ?j)),
              (''id'', job_id ?j), (''hpc'', hpc ?j), (''maintainer'', PStr ''SUMMA'')])"
    by blast+
  from written have "files (snd ?run) = [''job_constructor_7.json'' \<mapsto>
          PDict [(''secretToken'', PStr ''s3cret''), (''id'', PStr ''7''),
                 (''hpc'', PStr ''keeling''), (''maintainer'', PStr ''SUMMA'')]]"
    by (auto simp: constructor_file_def scripted_def)
  with ok same show ?thesis by simp
qed

text \<open>
  Claim C3. Restoring a job from the identity file of a fresh registration should give
  the instance the \<^verbatim>\<open>id\<close>, \<^verbatim>\<open>hpc\<close> and \<^verbatim>\<open>maintainer\<close> that were persisted. Line 27 of
  \<^verbatim>\<open>__init__\<close> reads the persisted maintainer into the local variable
  \<^verbatim>\<open>maintainer\<close>, after line 17 has already set \<^verbatim>\<open>self.maintainer\<close> from the argument,
  and nothing assigns it again. Registering with maintainer \<^verbatim>\<open>SUMMA\<close> and then constructing
  with the \<^verbatim>\<open>id\<close> alone gives back the \<^verbatim>\<open>id\<close> and the \<^verbatim>\<open>hpc\<close>, and \<^verbatim>\<open>None\<close> for the
  maintainer. On the restored job, \<^verbatim>\<open>events\<close> with live output raises a type error at
  the first event, where line 150 appends \<^verbatim>\<open>self.maintainer\<close> to a string.
\<close>

theorem restored_maintainer_is_lost:
  "(let fresh = Job_init (PStr ''SUMMA'') PNone PNone PNone PNone False
                  (scripted [registration_reply]);
        restored = Job_init PNone PNone (PStr ''7'') PNone PNone False (snd fresh)
    in map_sum id maintainer (fst fresh) = Inr (PStr ''SUMMA'')
       \<and> map_sum id job_id (fst fresh) = Inr (PStr ''7'')
       \<and> map_sum id hpc (fst fresh) = Inr (PStr ''keeling'')
       \<and> files (snd fresh) ''job_constructor_7.json''
           = Some (PDict [(''secretToken'', PStr ''s3cret''), (''id'', PStr ''7''),
                          (''hpc'', PStr ''keeling''), (''maintainer'', PStr ''SUMMA'')])
       \<and> map_sum id job_id (fst restored) = Inr (PStr ''7'')
       \<and> map_sum id hpc (fst restored) = Inr (PStr ''keeling'')
       \<and> map_sum id maintainer (fst restored) = Inr PNone
       \<and> (case fst restored of
             Inl e \<Rightarrow> False
           | Inr j \<Rightarrow> fst (events j True 10
                              (scripted [status_reply [event ''INFO'' ''started'' ''t1''] []]))
                       = Inl TypeError))"
  by (simp add: Job_init_def Let_def init_finish_def constructor_file_def run_defs
        scripted_def registration_reply_def events_def events_loop.simps events_poll_def
        events_batch.simps events_step_def clear_def print_identity_def status_def
        status_reply_def event_def)

definition example_job :: job where
  "example_job =
     \<lparr>maintainer = PStr ''SUMMA'', isJupyter = False, job_id = PStr ''7'',
      hpc = PStr ''keeling'',
      JAT = \<lparr>algorithm = ''md5'', jat_id = PStr ''7'', secretToken = PStr ''s3cret''\<rparr>,
      body = [(''param'', PDict [(''n'', PInt 4)]), (''env'', PDict []), (''slurm'', PDict []),
              (''executableFolder'', PNone)]\<rparr>"

section \<open>Configuration is a merge of the fields that pass the test\<close>

lemma map_of_py_setitem: "map_of (py_setitem kvs k v) = (map_of kvs)(k \<mapsto> v)"
  by (induction kvs) (auto simp: fun_eq_iff)

text \<open>The fields that a call of \<^verbatim>\<open>set\<close> stores: the keyword arguments whose value is
  true in the sense of \<^verbatim>\<open>if x:\<close>.\<close>

definition supplied :: "pyval \<Rightarrow> pyval \<Rightarrow> pyval \<Rightarrow> pyval \<Rightarrow> pyval \<Rightarrow> pyval \<Rightarrow> (string \<rightharpoonup> pyval)" where
  "supplied executableFolder dataFolder resultFolder param env slurm =
     map_of (filter (\<lambda>(k, v). truthy v)
       [(''executableFolder'', executableFolder), (''dataFolder'', dataFolder),
        (''resultFolder'', resultFolder), (''param'', param), (''env'', env), (''slurm'', slurm)])"

text \<open>The six tests of \<^verbatim>\<open>set\<close> in a row, as a fold.\<close>

definition merge_fields :: "(string \<times> pyval) list \<Rightarrow> (string \<times> pyval) list \<Rightarrow> (string \<times> pyval) list" where
  "merge_fields b kvs = foldl (\<lambda>b (k, v). if truthy v then py_setitem b k v else b) b kvs"

lemma merge_fields_Nil: "merge_fields b [] = b"
  by (simp add: merge_fields_def)

lemma merge_fields_Cons:
  "merge_fields b ((k, v) # kvs) = merge_fields (if truthy v then py_setitem b k v else b) kvs"
  by (simp add: merge_fields_def)

lemma map_of_filter_absent:
  "k \<notin> fst ` set kvs \<Longrightarrow> map_of (filter P kvs) k = None"
  by (induction kvs) auto

lemma map_of_merge_fields:
  "distinct (map fst kvs) \<Longrightarrow>
     map_of (merge_fields b kvs) = map_of b ++ map_of (filter (\<lambda>(k, v). truthy v) kvs)"
proof (induction kvs arbitrary: b)
  case Nil
  then show ?case by (simp add: merge_fields_Nil)
next
  case (Cons kv kvs)
  obtain k v where kv: "kv = (k, v)" by (cases kv)
  from Cons.prems kv have absent: "map_of (filter (\<lambda>(k, v). truthy v) kvs) k = None"
    by (intro map_of_filter_absent) simp
  from Cons.prems have d: "distinct (map fst kvs)" by simp
  show ?case
  proof (cases "truthy v")
    case True
    have "map_of (merge_fields b (kv # kvs)) = map_of (merge_fields (py_setitem b k v) kvs)"
      using True kv by (simp add: merge_fields_Cons)
    also have "\<dots> = map_of (py_setitem b k v) ++ map_of (filter (\<lambda>(k, v). truthy v) kvs)"
      by (rule Cons.IH [OF d])
    also have "\<dots> = (map_of b)(k \<mapsto> v) ++ map_of (filter (\<lambda>(k, v). truthy v) kvs)"
      by (simp only: map_of_py_setitem)
    also have "\<dots> = map_of b ++ map_of (filter (\<lambda>(k, v). truthy v) (kv # kvs))"
      using True kv absent by (auto simp: fun_eq_iff map_add_def split: option.splits)
    finally show ?thesis .
  next
    case False
    then show ?thesis using kv Cons.IH [OF d] by (simp add: merge_fields_Cons)
  qed
qed

lemma Job_set_merge:
  "body (fst (Job_set j ef df rf pa en sl w)) =
     merge_fields (body j)
       [(''executableFolder'', ef), (''dataFolder'', df), (''resultFolder'', rf),
        (''param'', pa), (''env'', en), (''slurm'', sl)]"
  by (simp add: Job_set_def Let_def merge_fields_def)

lemma Job_set_body:
  "map_of (body (fst (Job_set j ef df rf pa en sl w))) = map_of (body j) ++ supplied ef df rf pa en sl"
  unfolding Job_set_merge supplied_def
  by (rule map_of_merge_fields) simp

lemma Job_set_none: "fst (Job_set j PNone PNone PNone PNone PNone PNone w) = j"
  by (simp add: Job_set_def)

text \<open>
  Claim C4, as stated: \<^verbatim>\<open>set\<close> merges the non-null fields, so that two calls with
  disjoint non-null fields leave the union of their fields in the configuration. The
  tests of lines 113 to 123 are \<^verbatim>\<open>if param:\<close> and the like, and an empty dictionary or an
  empty string is not null and does not pass. On a job whose \<^verbatim>\<open>param\<close> is
  \<^verbatim>\<open>{'n': 4}\<close>, the calls \<^verbatim>\<open>set(param={})\<close> and \<^verbatim>\<open>set(env={'k': 'v'})\<close> leave
  \<^verbatim>\<open>param\<close> at \<^verbatim>\<open>{'n': 4}\<close>: the field \<^verbatim>\<open>param\<close> of the first call is not present.
\<close>

theorem set_skips_empty_fields_counterexample:
  "PDict [] \<noteq> PNone \<and> PDict [(''k'', PStr ''v'')] \<noteq> PNone
   \<and> map_of (body (fst (Job_set
         (fst (Job_set example_job PNone PNone PNone (PDict []) PNone PNone (scripted [])))
         PNone PNone PNone PNone (PDict [(''k'', PStr ''v'')]) PNone (scripted [])))) ''param''
       = Some (PDict [(''n'', PInt 4)])
   \<and> map_of (body (fst (Job_set
         (fst (Job_set example_job PNone PNone PNone (PDict []) PNone PNone (scripted [])))
         PNone PNone PNone PNone (PDict [(''k'', PStr ''v'')]) PNone (scripted [])))) ''param''
       \<noteq> Some (PDict [])"
  by (simp add: Job_set_def Let_def example_job_def)

text \<open>
  Claim C4, amended: \<^verbatim>\<open>set\<close> merges into the configuration the fields whose value is
  true (not null, and not empty, zero or false). The configuration after the call is the
  one before, overridden by the fields supplied; a field that is null or otherwise not
  true keeps its prior value; a call with all fields null leaves the job as it was; and
  after two calls whose supplied fields are disjoint, every field supplied by either
  call is present with the value supplied.
\<close>

theorem set_merges_supplied_fields:
  "map_of (body (fst (Job_set j ef df rf pa en sl w)))
     = map_of (body j) ++ supplied ef df rf pa en sl
   \<and> (\<forall>k. supplied ef df rf pa en sl k = None \<longrightarrow>
         map_of (body (fst (Job_set j ef df rf pa en sl w))) k = map_of (body j) k)
   \<and> fst (Job_set j PNone PNone PNone PNone PNone PNone w) = j
   \<and> (dom (supplied ef df rf pa en sl) \<inter> dom (supplied ef' df' rf' pa' en' sl') = {} \<longrightarrow>
        (\<forall>k v. supplied ef df rf pa en sl k = Some v \<or> supplied ef' df' rf' pa' en' sl' k = Some v \<longrightarrow>
           map_of (body (fst (Job_set (fst (Job_set j ef df rf pa en sl w))
                                ef' df' rf' pa' en' sl' w'))) k = Some v))"
proof (intro conjI allI impI)
  show "map_of (body (fst (Job_set j ef df rf pa en sl w))) = map_of (body j) ++ supplied ef df rf pa en sl"
    by (rule Job_set_body)
next
  fix k assume "supplied ef df rf pa en sl k = None"
  then show "map_of (body (fst (Job_set j ef df rf pa en sl w))) k = map_of (body j) k"
    by (simp add: Job_set_body map_add_def)
next
  show "fst (Job_set j PNone PNone PNone PNone PNone PNone w) = j" by (rule Job_set_none)
next
  fix k v
  assume d: "dom (supplied ef df rf pa en sl) \<inter> dom (supplied ef' df' rf' pa' en' sl') = {}"
    and s: "supplied ef df rf pa en sl k = Some v \<or> supplied ef' df' rf' pa' en' sl' k = Some v"
  from s show "map_of (body (fst (Job_set (fst (Job_set j ef df rf pa en sl w)) ef' df' rf' pa' en' sl' w'))) k = Some v"
  proof
    assume a: "supplied ef df rf pa en sl k = Some v"
    with d have "supplied ef' df' rf' pa' en' sl' k = None" by (auto simp: dom_def)
    with a show ?thesis by (simp add: Job_set_body map_add_def)
  next
    assume "supplied ef' df' rf' pa' en' sl' k = Some v"
    then show ?thesis by (simp add: Job_set_body map_add_def)
  qed
qed

theorem set_merges_supplied_fields_witness:
  "dom (supplied PNone PNone PNone (PDict [(''n'', PInt 8)]) PNone PNone)
     \<inter> dom (supplied PNone (PStr ''data'') PNone PNone PNone PNone) = {}
   \<and> supplied PNone PNone PNone (PDict [(''n'', PInt 8)]) PNone PNone ''slurm'' = None
   \<and> map_of (body (fst (Job_set example_job PNone PNone PNone (PDict [(''n'', PInt 8)]) PNone PNone (scripted [])))) ''slurm''
       = Some (PDict [])
   \<and> map_of (body (fst (Job_set (fst (Job_set example_job PNone PNone PNone (PDict [(''n'', PInt 8)]) PNone PNone (scripted [])))
         PNone (PStr ''data'') PNone PNone PNone PNone (scripted [])))) ''param''
       = Some (PDict [(''n'', PInt 8)])
   \<and> map_of (body (fst (Job_set (fst (Job_set example_job PNone PNone PNone (PDict [(''n'', PInt 8)]) PNone PNone (scripted [])))
         PNone (PStr ''data'') PNone PNone PNone PNone (scripted [])))) ''dataFolder''
       = Some (PStr ''data'')"
proof -
  let ?a = "supplied PNone PNone PNone (PDict [(''n'', PInt 8)]) PNone PNone"
  let ?b = "supplied PNone (PStr ''data'') PNone PNone PNone PNone"
  have d: "dom ?a \<inter> dom ?b = {}" by (auto simp: supplied_def split: if_splits)
  have n: "?a ''slurm'' = None" by (simp add: supplied_def)
  have p: "?a ''param'' = Some (PDict [(''n'', PInt 8)])" by (simp add: supplied_def)
  have f: "?b ''dataFolder'' = Some (PStr ''data'')" by (simp add: supplied_def)
  note t = set_merges_supplied_fields [of example_job PNone PNone PNone "PDict [(''n'', PInt 8)]" PNone PNone "scripted []"
                  PNone "PStr ''data''" PNone PNone PNone PNone "scripted []"]
  from t n have "map_of (body (fst (Job_set example_job PNone PNone PNone (PDict [(''n'', PInt 8)]) PNone PNone (scripted [])))) ''slurm''
       = map_of (body example_job) ''slurm''" by blast
  moreover from t d p have "map_of (body (fst (Job_set (fst (Job_set example_job PNone PNone PNone (PDict [(''n'', PInt 8)]) PNone PNone (scripted [])))
         PNone (PStr ''data'') PNone PNone PNone PNone (scripted [])))) ''param''
       = Some (PDict [(''n'', PInt 8)])" by blast
  moreover from t d f have "map_of (body (fst (Job_set (fst (Job_set example_job PNone PNone PNone (PDict [(''n'', PInt 8)]) PNone PNone (scripted [])))
         PNone (PStr ''data'') PNone PNone PNone PNone (scripted [])))) ''dataFolder''
       = Some (PStr ''data'')" by blast
  ultimately show ?thesis using d n by (simp add: example_job_def)
qed

section \<open>Upload of the executable folder\<close>

text \<open>
  Claim C10. \<^verbatim>\<open>uploadExecutableFolder\<close> changes nothing of the job but the entry
  \<^verbatim>\<open>executableFolder\<close> of the body: whatever the folder and whatever the transport
  answers, \<^verbatim>\<open>id\<close>, \<^verbatim>\<open>hpc\<close>, \<^verbatim>\<open>maintainer\<close>, the token manager and every other entry
  of the body (\<^verbatim>\<open>param\<close>, \<^verbatim>\<open>env\<close>, \<^verbatim>\<open>slurm\<close>, \<^verbatim>\<open>dataFolder\<close>, \<^verbatim>\<open>resultFolder\<close>) are
  the same after the call, also when the call raises.
\<close>

theorem upload_changes_only_executableFolder:
  "(case uploadExecutableFolder j folder_path tree w of (r, j', w') \<Rightarrow>
      job_id j' = job_id j \<and> hpc j' = hpc j \<and> maintainer j' = maintainer j
      \<and> JAT j' = JAT j \<and> isJupyter j' = isJupyter j
      \<and> (\<forall>k. k \<noteq> ''executableFolder'' \<longrightarrow> map_of (body j') k = map_of (body j) k))"
  by (simp add: uploadExecutableFolder_def map_of_py_setitem split: prod.split sum.split)

text \<open>A folder \<^verbatim>\<open>/app\<close> that holds \<^verbatim>\<open>main.py\<close> and a package \<^verbatim>\<open>app\<close> with its own
  \<^verbatim>\<open>main.py\<close>.\<close>

definition app_folder :: node where
  "app_folder = Dir [(''main.py'', File ''top''), (''app'', Dir [(''main.py'', File ''nested'')])]"

lemma zip_app: "zip_folder ''/app'' app_folder = [(''main.py'', ''top''), (''main.py'', ''nested'')]"
  by (simp add: zip_folder_def app_folder_def listing_def path_join_def py_replace.simps)

theorem upload_changes_only_executableFolder_witness:
  "''param'' \<noteq> ''executableFolder''
   \<and> map_of (body (fst (snd (uploadExecutableFolder example_job ''/app'' app_folder
         (scripted [PDict [(''file'', PStr ''local://f1'')]]))))) ''param''
       = Some (PDict [(''n'', PInt 4)])
   \<and> map_of (body (fst (snd (uploadExecutableFolder example_job ''/app'' app_folder
         (scripted [PDict [(''file'', PStr ''local://f1'')]]))))) ''executableFolder''
       = Some (PStr ''local://f1'')"
  using upload_changes_only_executableFolder
          [of example_job "''/app''" app_folder "scripted [PDict [(''file'', PStr ''local://f1'')]]"]
  by (simp add: uploadExecutableFolder_def upload_def transport_def scripted_def example_job_def
        split: prod.splits)

text \<open>
  The pairs the claim expects in the archive: every file the walk meets, under its path
  relative to the walked folder (the absolute path without the folder and the separator
  that follows it).
\<close>

definition walked_relative :: "string \<Rightarrow> node \<Rightarrow> (string \<times> string) list" where
  "walked_relative folder_path tree =
     concat (map (\<lambda>(root, dirs, files).
                    map (\<lambda>(f, bytes). (drop (Suc (length folder_path)) (path_join root f), bytes)) files)
                 (walk True folder_path tree))"

text \<open>
  Claim C8. The archive should hold every walked file at its path relative to the walked
  folder. Line 103 computes the relative directory with
  \<^verbatim>\<open>root.replace(folder_path, '')\<close>, which removes every occurrence of the folder's path
  in \<^verbatim>\<open>root\<close>, not only the leading one. For the folder \<^verbatim>\<open>/app\<close> with a subdirectory
  \<^verbatim>\<open>app\<close>, the root \<^verbatim>\<open>/app/app\<close> becomes the empty string: \<^verbatim>\<open>app/main.py\<close> is staged as
  \<^verbatim>\<open>main.py\<close>, the name of the top-level file, and the archive that is uploaded has no
  entry \<^verbatim>\<open>app/main.py\<close>.
\<close>

theorem nested_folder_named_like_root_is_flattened:
  "walked_relative ''/app'' app_folder = [(''main.py'', ''top''), (''app/main.py'', ''nested'')]
   \<and> zip_folder ''/app'' app_folder = [(''main.py'', ''top''), (''main.py'', ''nested'')]
   \<and> trace (snd (snd (uploadExecutableFolder example_job ''/app'' app_folder
         (scripted [PDict [(''file'', PStr ''local://f1'')]]))))
      = [Call (Upload ''/file'' (PDict [(''accessToken'', PStr ''token'')])
               [(''main.py'', ''top''), (''main.py'', ''nested'')])]"
proof (intro conjI)
  show "walked_relative ''/app'' app_folder
          = [(''main.py'', ''top''), (''app/main.py'', ''nested'')]"
    by (simp add: walked_relative_def app_folder_def listing_def path_join_def)
  show "zip_folder ''/app'' app_folder = [(''main.py'', ''top''), (''main.py'', ''nested'')]"
    by (rule zip_app)
  show "trace (snd (snd (uploadExecutableFolder example_job ''/app'' app_folder
         (scripted [PDict [(''file'', PStr ''local://f1'')]]))))
      = [Call (Upload ''/file'' (PDict [(''accessToken'', PStr ''token'')])
               [(''main.py'', ''top''), (''main.py'', ''nested'')])]"
    by (simp add: zip_app uploadExecutableFolder_def upload_def transport_def scripted_def)
qed

section \<open>Live logs\<close>

text \<open>
  Claim C2. \<^verbatim>\<open>logs\<close> with live output should sleep between two polls as long as no
  event ends the job, and stop once one does. Line 196 tests \<^verbatim>\<open>if isEnd:\<close> where
  \<^verbatim>\<open>events\<close> has \<^verbatim>\<open>if not isEnd:\<close> (line 157). With a first status without events and
  a second one whose events hold \<^verbatim>\<open>JOB_ENDED\<close>, the two status requests follow each
  other with no sleep between them, and the only sleep comes after the end of the job
  has been seen, just before the loop is left. The third reply is not asked for.
\<close>

theorem logs_sleeps_only_after_the_end:
  "logs example_job True 15
     (scripted [status_reply [] [], status_reply [event ''JOB_ENDED'' ''done'' ''t1''] [],
                status_reply [] []])
   = (Inr PNone,
      \<lparr>replies = [status_reply [] []],
       trace = [Call (Request ''GET'' ''/job/7'' (PDict [(''accessToken'', PStr ''token'')])),
                Call (Request ''GET'' ''/job/7'' (PDict [(''accessToken'', PStr ''token'')])),
                Sleep 15],
       files = Map.empty, getAccessToken = (\<lambda>t. PStr ''token'')\<rparr>)"
  by (simp add: logs_def logs_loop.simps logs_poll_def logs_batch.simps logs_scan.simps status_def
       run_defs scripted_def status_reply_def event_def example_job_def is_terminal_def)

section \<open>Result locators\<close>

text \<open>The number of separators of a locator, as the spec counts them: the positions at
  which \<^verbatim>\<open>://\<close> starts.\<close>

fun separators :: "string \<Rightarrow> nat" where
  "separators [] = 0"
| "separators (c # cs) = (if take 3 (c # cs) = ''://'' then 1 else 0) + separators cs"

lemma separators_prefix: "separators (''://'' @ s) = Suc (separators s)"
  by simp

lemma starts_with_sep: "take 3 s = ''://'' \<Longrightarrow> s = ''://'' @ drop 3 s"
  by (metis append_take_drop_id)

lemma split_sep_unfold:
  "split_from ''://'' cur s =
     (if s = [] then [cur]
      else if take 3 s = ''://'' then cur # split_from ''://'' [] (drop 3 s)
      else split_from ''://'' (cur @ [hd s]) (tl s))"
proof -
  have l: "length ''://'' = 3" by simp
  show ?thesis by (subst split_from.simps) (simp only: l, simp)
qed

lemma split_from_length: "length (split_from ''://'' cur s) = Suc (separators s)"
proof (induction "length s" arbitrary: cur s rule: less_induct)
  case less
  show ?case
  proof (cases "s = []")
    case True
    then show ?thesis by (subst split_sep_unfold) simp
  next
    case ne: False
    show ?thesis
    proof (cases "take 3 s = ''://''")
      case True
      have s: "s = ''://'' @ drop 3 s" using True by (rule starts_with_sep)
      have "separators s = Suc (separators (drop 3 s))"
        by (subst s) (simp only: separators_prefix)
      moreover have "length (split_from ''://'' [] (drop 3 s)) = Suc (separators (drop 3 s))"
        using ne by (intro less) simp
      moreover have "split_from ''://'' cur s = cur # split_from ''://'' [] (drop 3 s)"
        using ne True by (subst split_sep_unfold) (simp only: if_True if_False simp_thms)
      ultimately show ?thesis by simp
    next
      case False
      obtain c cs where s: "s = c # cs" using ne by (cases s) auto
      have "split_from ''://'' cur s = split_from ''://'' (cur @ [hd s]) (tl s)"
        using ne False by (subst split_sep_unfold) (simp only: if_True if_False simp_thms)
      moreover have "length (split_from ''://'' (cur @ [hd s]) (tl s)) = Suc (separators (tl s))"
        using ne by (intro less) simp
      moreover have "separators s = separators (tl s)"
        using False unfolding s by (simp only: separators.simps list.sel if_False add_0)
      ultimately show ?thesis by simp
    qed
  qed
qed

lemma split_from_none: "separators s = 0 \<Longrightarrow> split_from ''://'' cur s = [cur @ s]"
proof (induction s arbitrary: cur)
  case Nil
  then show ?case by (subst split_sep_unfold) simp
next
  case (Cons c cs)
  from Cons.prems have "(if take 3 (c # cs) = ''://'' then 1 else 0) + separators cs = 0"
    by (simp only: separators.simps)
  then have no: "take 3 (c # cs) \<noteq> ''://''" and z: "separators cs = 0"
    by (simp_all only: add_is_0 split: if_splits) simp_all
  have "split_from ''://'' cur (c # cs) = split_from ''://'' (cur @ [c]) cs"
    using no by (subst split_sep_unfold) (simp only: if_False list.simps list.sel)
  with Cons.IH [OF z] show ?case by simp
qed

lemma separators_mid: "0 < separators (a @ ''://'' @ b)"
  by (induction a) auto

lemma split_from_one:
  "separators (a @ ''://'' @ b) = 1 \<Longrightarrow> split_from ''://'' cur (a @ ''://'' @ b) = [cur @ a, b]"
proof (induction a arbitrary: cur)
  case Nil
  then have z: "separators b = 0" by simp
  have "split_from ''://'' cur (''://'' @ b) = cur # split_from ''://'' [] b"
    by (subst split_sep_unfold) simp
  with split_from_none [OF z, of "[]"] show ?case by simp
next
  case (Cons c a)
  have pos: "0 < separators (a @ ''://'' @ b)" by (rule separators_mid)
  from Cons.prems
  have "(if take 3 (c # (a @ ''://'' @ b)) = ''://'' then 1 else 0) + separators (a @ ''://'' @ b) = 1"
    by (simp only: separators.simps append_Cons)
  with pos have no: "take 3 (c # (a @ ''://'' @ b)) \<noteq> ''://''"
    and one: "separators (a @ ''://'' @ b) = 1"
    by (auto split: if_splits)
  have "split_from ''://'' cur (c # (a @ ''://'' @ b)) = split_from ''://'' (cur @ [c]) (a @ ''://'' @ b)"
    using no by (subst split_sep_unfold) (simp only: if_False list.simps list.sel)
  with Cons.IH [OF one, of "cur @ [c]"] show ?case by simp
qed

lemma status_live:
  "job_id j = PStr i \<Longrightarrow> replies w = r # rs \<Longrightarrow>
     status j w = (Inr r, w\<lparr>replies := rs, trace := trace w @
        [Call (Request ''GET'' (''/job/'' @ i) (PDict [(''accessToken'', getAccessToken w (JAT j))]))]\<rparr>)"
  by (simp add: status_def run_defs)

text \<open>
  The three ways in which \<^verbatim>\<open>downloadResultFolder\<close> stops right after the status fetch,
  for a job with a live \<^verbatim>\<open>id\<close> and a status that is a dictionary. Without the key
  \<^verbatim>\<open>resultFolder\<close> it raises the error of the result that is not ready; with a string
  that does not have exactly one separator \<^verbatim>\<open>://\<close> it raises the error of the invalid
  format; with the key present and a value that is not a string, \<^verbatim>\<open>None\<close> among them,
  the test of line 213 passes and \<^verbatim>\<open>.split\<close> on line 216 raises an attribute error. In
  the three cases the status request is the only call made to the transport.
\<close>

lemma download_stops_after_status:
  assumes "job_id j = PStr i" and "replies w = PDict st # rs"
  shows "(''resultFolder'' \<notin> fst ` set st \<longrightarrow>
            downloadResultFolder j dir w = (Inl ResultNotReady,
               w\<lparr>replies := rs, trace := trace w @
                 [Call (Request ''GET'' (''/job/'' @ i) (PDict [(''accessToken'', getAccessToken w (JAT j))]))]\<rparr>))
       \<and> (map_of st ''resultFolder'' = Some (PStr loc) \<and> separators loc \<noteq> 1 \<longrightarrow>
            downloadResultFolder j dir w = (Inl InvalidResultLocatorFormat,
               w\<lparr>replies := rs, trace := trace w @
                 [Call (Request ''GET'' (''/job/'' @ i) (PDict [(''accessToken'', getAccessToken w (JAT j))]))]\<rparr>))
       \<and> (map_of st ''resultFolder'' = Some v \<and> (\<forall>s. v \<noteq> PStr s) \<longrightarrow>
            downloadResultFolder j dir w = (Inl AttributeError,
               w\<lparr>replies := rs, trace := trace w @
                 [Call (Request ''GET'' (''/job/'' @ i) (PDict [(''accessToken'', getAccessToken w (JAT j))]))]\<rparr>))"
proof (intro conjI impI)
  assume "''resultFolder'' \<notin> fst ` set st"
  then show "downloadResultFolder j dir w = (Inl ResultNotReady,
               w\<lparr>replies := rs, trace := trace w @
                 [Call (Request ''GET'' (''/job/'' @ i) (PDict [(''accessToken'', getAccessToken w (JAT j))]))]\<rparr>)"
    using assms by (simp add: downloadResultFolder_def status_live bnd_def lift_def)
next
  assume a: "map_of st ''resultFolder'' = Some (PStr loc) \<and> separators loc \<noteq> 1"
  then have "''resultFolder'' \<in> fst ` set st"
    by (metis map_of_SomeD fst_conv image_eqI)
  moreover have "length (split_from ''://'' [] loc) \<noteq> 2"
    using a by (simp add: split_from_length)
  ultimately show "downloadResultFolder j dir w = (Inl InvalidResultLocatorFormat,
               w\<lparr>replies := rs, trace := trace w @
                 [Call (Request ''GET'' (''/job/'' @ i) (PDict [(''accessToken'', getAccessToken w (JAT j))]))]\<rparr>)"
    using assms a by (simp add: downloadResultFolder_def status_live bnd_def lift_def str_split_def)
next
  assume a: "map_of st ''resultFolder'' = Some v \<and> (\<forall>s. v \<noteq> PStr s)"
  then have "''resultFolder'' \<in> fst ` set st"
    by (metis map_of_SomeD fst_conv image_eqI)
  moreover have "str_split v ''://'' = Inl AttributeError"
    using a by (cases v) (simp_all add: str_split_def)
  ultimately show "downloadResultFolder j dir w = (Inl AttributeError,
               w\<lparr>replies := rs, trace := trace w @
                 [Call (Request ''GET'' (''/job/'' @ i) (PDict [(''accessToken'', getAccessToken w (JAT j))]))]\<rparr>)"
    using assms a by (simp add: downloadResultFolder_def status_live bnd_def lift_def)
qed

lemma download_stops_after_status_examples:
  "separators ''weird_format_no_scheme'' \<noteq> 1
   \<and> downloadResultFolder example_job (PStr ''out'')
        (scripted [PDict [(''resultFolder'', PStr ''weird_format_no_scheme'')], PStr ''unused''])
       = (Inl InvalidResultLocatorFormat,
          \<lparr>replies = [PStr ''unused''],
           trace = [Call (Request ''GET'' ''/job/7'' (PDict [(''accessToken'', PStr ''token'')]))],
           files = Map.empty, getAccessToken = (\<lambda>t. PStr ''token'')\<rparr>)
   \<and> downloadResultFolder example_job (PStr ''out'')
        (scripted [PDict [(''events'', PList [])], PStr ''unused''])
       = (Inl ResultNotReady,
          \<lparr>replies = [PStr ''unused''],
           trace = [Call (Request ''GET'' ''/job/7'' (PDict [(''accessToken'', PStr ''token'')]))],
           files = Map.empty, getAccessToken = (\<lambda>t. PStr ''token'')\<rparr>)"
proof -
  have i: "job_id example_job = PStr ''7''" by (simp add: example_job_def)
  have n: "separators ''weird_format_no_scheme'' \<noteq> 1" by simp
  have r1: "replies (scripted [PDict [(''resultFolder'', PStr ''weird_format_no_scheme'')],
                               PStr ''unused''])
              = PDict [(''resultFolder'', PStr ''weird_format_no_scheme'')] # [PStr ''unused'']"
    by (simp add: scripted_def)
  have r2: "replies (scripted [PDict [(''events'', PList [])], PStr ''unused''])
              = PDict [(''events'', PList [])] # [PStr ''unused'']"
    by (simp add: scripted_def)
  have m: "map_of [(''resultFolder'', PStr ''weird_format_no_scheme'')] ''resultFolder''
             = Some (PStr ''weird_format_no_scheme'')"
    by simp
  have a: "''resultFolder'' \<notin> fst ` set [(''events'', PList [])]" by simp
  from download_stops_after_status
         [OF i r1, where loc = "''weird_format_no_scheme''" and dir = "PStr ''out''"] m n
  have "downloadResultFolder example_job (PStr ''out'')
        (scripted [PDict [(''resultFolder'', PStr ''weird_format_no_scheme'')], PStr ''unused''])
       = (Inl InvalidResultLocatorFormat,
          \<lparr>replies = [PStr ''unused''],
           trace = [Call (Request ''GET'' ''/job/7'' (PDict [(''accessToken'', PStr ''token'')]))],
           files = Map.empty, getAccessToken = (\<lambda>t. PStr ''token'')\<rparr>)"
    by (simp add: scripted_def)
  moreover from download_stops_after_status [OF i r2, where dir = "PStr ''out''"] a
  have "downloadResultFolder example_job (PStr ''out'')
        (scripted [PDict [(''events'', PList [])], PStr ''unused''])
       = (Inl ResultNotReady,
          \<lparr>replies = [PStr ''unused''],
           trace = [Call (Request ''GET'' ''/job/7'' (PDict [(''accessToken'', PStr ''token'')]))],
           files = Map.empty, getAccessToken = (\<lambda>t. PStr ''token'')\<rparr>)"
    by (simp add: scripted_def)
  ultimately show ?thesis using n by simp
qed

text \<open>A status of a job that has produced no result yet, with the fields the spec
  lists for it: the locators are present and null.\<close>

definition pending_status :: pyval where
  "pending_status =
     PDict [(''id'', PStr ''7''), (''maintainer'', PStr ''SUMMA''), (''hpc'', PStr ''keeling''),
            (''executableFolder'', PStr ''local://f1''), (''dataFolder'', PNone),
            (''resultFolder'', PNone), (''param'', PDict []), (''slurm'', PDict []),
            (''createdAt'', PStr ''t0''), (''events'', PList []), (''logs'', PList [])]"

text \<open>
  Claim C5. With a live \<^verbatim>\<open>id\<close>, \<^verbatim>\<open>downloadResultFolder\<close> should raise the error of the
  result that is not ready when the status lacks a result folder, and the error of the
  invalid format when the locator does not have exactly one separator, with no call
  after the status fetch. The test of line 213 is \<^verbatim>\<open>'resultFolder' not in jobStatus\<close>,
  which looks at the key only. The records of the service carry the key also when there
  is no result (\<^verbatim>\<open>submit\<close> reads \<^verbatim>\<open>job['resultFolder']\<close> without a test, line 83). On
  such a status the test passes and line 216 calls \<^verbatim>\<open>.split\<close> on \<^verbatim>\<open>None\<close>: the call
  raises an attribute error, which is neither of the two errors. The status request is
  the only call made. A status without the key, and the locator
  \<^verbatim>\<open>weird_format_no_scheme\<close>, raise the two errors as the claim says.
\<close>

theorem null_result_folder_raises_attribute_error:
  "py_getitem pending_status ''resultFolder'' = Inr PNone
   \<and> downloadResultFolder example_job (PStr ''out'') (scripted [pending_status, PStr ''unused''])
       = (Inl AttributeError,
          \<lparr>replies = [PStr ''unused''],
           trace = [Call (Request ''GET'' ''/job/7'' (PDict [(''accessToken'', PStr ''token'')]))],
           files = Map.empty, getAccessToken = (\<lambda>t. PStr ''token'')\<rparr>)
   \<and> downloadResultFolder example_job (PStr ''out'')
        (scripted [PDict [(''events'', PList [])], PStr ''unused''])
       = (Inl ResultNotReady,
          \<lparr>replies = [PStr ''unused''],
           trace = [Call (Request ''GET'' ''/job/7'' (PDict [(''accessToken'', PStr ''token'')]))],
           files = Map.empty, getAccessToken = (\<lambda>t. PStr ''token'')\<rparr>)
   \<and> downloadResultFolder example_job (PStr ''out'')
        (scripted [PDict [(''resultFolder'', PStr ''weird_format_no_scheme'')], PStr ''unused''])
       = (Inl InvalidResultLocatorFormat,
          \<lparr>replies = [PStr ''unused''],
           trace = [Call (Request ''GET'' ''/job/7'' (PDict [(''accessToken'', PStr ''token'')]))],
           files = Map.empty, getAccessToken = (\<lambda>t. PStr ''token'')\<rparr>)"
proof (intro conjI)
  show "py_getitem pending_status ''resultFolder'' = Inr PNone"
    by (simp add: pending_status_def)
  show "downloadResultFolder example_job (PStr ''out'') (scripted [pending_status, PStr ''unused''])
       = (Inl AttributeError,
          \<lparr>replies = [PStr ''unused''],
           trace = [Call (Request ''GET'' ''/job/7'' (PDict [(''accessToken'', PStr ''token'')]))],
           files = Map.empty, getAccessToken = (\<lambda>t. PStr ''token'')\<rparr>)"
    by (simp add: downloadResultFolder_def status_def run_defs str_split_def scripted_def
          pending_status_def example_job_def)
  show "downloadResultFolder example_job (PStr ''out'')
        (scripted [PDict [(''events'', PList [])], PStr ''unused''])
       = (Inl ResultNotReady,
          \<lparr>replies = [PStr ''unused''],
           trace = [Call (Request ''GET'' ''/job/7'' (PDict [(''accessToken'', PStr ''token'')]))],
           files = Map.empty, getAccessToken = (\<lambda>t. PStr ''token'')\<rparr>)"
    by (simp add: downloadResultFolder_def status_def run_defs scripted_def example_job_def)
  show "downloadResultFolder example_job (PStr ''out'')
        (scripted [PDict [(''resultFolder'', PStr ''weird_format_no_scheme'')], PStr ''unused''])
       = (Inl InvalidResultLocatorFormat,
          \<lparr>replies = [PStr ''unused''],
           trace = [Call (Request ''GET'' ''/job/7'' (PDict [(''accessToken'', PStr ''token'')]))],
           files = Map.empty, getAccessToken = (\<lambda>t. PStr ''token'')\<rparr>)"
    using download_stops_after_status_examples by simp
qed

text \<open>
  Claim C6. For a locator with exactly one separator whose scheme is neither
  \<^verbatim>\<open>globus\<close> nor \<^verbatim>\<open>local\<close>, \<^verbatim>\<open>downloadResultFolder\<close> falls through: it returns
  \<^verbatim>\<open>None\<close>, raises nothing, and the status request is the only call made to the
  transport, so no download and no transfer is asked for.
\<close>

theorem unknown_scheme_falls_through:
  assumes "job_id j = PStr i" and "replies w = PDict st # rs"
    and "map_of st ''resultFolder'' = Some (PStr (scheme @ ''://'' @ ident))"
    and "separators (scheme @ ''://'' @ ident) = 1"
    and "scheme \<noteq> ''globus''" and "scheme \<noteq> ''local''"
  shows "downloadResultFolder j dir w = (Inr PNone,
               w\<lparr>replies := rs, trace := trace w @
                 [Call (Request ''GET'' (''/job/'' @ i) (PDict [(''accessToken'', getAccessToken w (JAT j))]))]\<rparr>)"
proof -
  have "''resultFolder'' \<in> fst ` set st"
    using assms(3) by (metis map_of_SomeD fst_conv image_eqI)
  moreover have "split_from ''://'' [] (scheme @ ''://'' @ ident) = [scheme, ident]"
    using split_from_one [OF assms(4), of "[]"] by simp
  ultimately show ?thesis
    using assms by (simp add: downloadResultFolder_def status_live bnd_def lift_def ret_def str_split_def)
qed

theorem unknown_scheme_falls_through_witness:
  "separators (''s3'' @ ''://'' @ ''bucket/key'') = 1
   \<and> downloadResultFolder example_job (PStr ''out'')
        (scripted [PDict [(''resultFolder'', PStr ''s3://bucket/key'')], PStr ''unused''])
       = (Inr PNone,
          \<lparr>replies = [PStr ''unused''],
           trace = [Call (Request ''GET'' ''/job/7'' (PDict [(''accessToken'', PStr ''token'')]))],
           files = Map.empty, getAccessToken = (\<lambda>t. PStr ''token'')\<rparr>)"
proof -
  have i: "job_id example_job = PStr ''7''" by (simp add: example_job_def)
  have r: "replies (scripted [PDict [(''resultFolder'', PStr ''s3://bucket/key'')], PStr ''unused''])
              = PDict [(''resultFolder'', PStr ''s3://bucket/key'')] # [PStr ''unused'']"
    by (simp add: scripted_def)
  have m: "map_of [(''resultFolder'', PStr ''s3://bucket/key'')] ''resultFolder''
             = Some (PStr (''s3'' @ ''://'' @ ''bucket/key''))"
    by simp
  have n: "separators (''s3'' @ ''://'' @ ''bucket/key'') = 1" by simp
  have g: "''s3'' \<noteq> ''globus''" and l: "''s3'' \<noteq> ''local''" by simp_all
  from unknown_scheme_falls_through [OF i r m n g l, where dir = "PStr ''out''"] n
  show ?thesis by (simp add: scripted_def)
qed

section \<open>Live events\<close>

text \<open>
  An event as the service reports it: type, message and time of creation. \<open>event_json\<close>
  is the event inside a status reply, \<open>event_row\<close> the row that \<^verbatim>\<open>events\<close> appends to
  its table, \<open>poll_reply\<close> the status reply that carries a list of events.
\<close>

type_synonym ev = "string \<times> string \<times> string"

definition event_json :: "ev \<Rightarrow> pyval" where
  "event_json e = (case e of (t, m, c) \<Rightarrow> event t m c)"

definition event_row :: "ev \<Rightarrow> pyval" where
  "event_row e = (case e of (t, m, c) \<Rightarrow> PList [PStr t, PStr m, PStr c])"

definition ends_job :: "ev \<Rightarrow> bool" where
  "ends_job e = (fst e = ''JOB_ENDED'' \<or> fst e = ''JOB_FAILED'')"

definition poll_reply :: "ev list \<Rightarrow> pyval" where
  "poll_reply b = status_reply (map event_json b) []"

text \<open>
  What the spec describes for live output, written from its words. \<open>frames\<close> is the
  incremental emission: for each new event, in order, the screen is cleared and the
  table of all events seen so far, this one included, is shown under the three lines
  that identify the job. \<open>live_spec\<close> is the polling loop: each turn fetches the status
  and emits every event beyond the ones seen; when one of the new events ends the job
  the loop is left after the batch, otherwise it sleeps and polls again. It returns what
  happened, the batches that were not asked for, and whether the loop was left; with no
  batch left the request is made and nothing comes back.
\<close>

fun frames :: "bool \<Rightarrow> string \<Rightarrow> string \<Rightarrow> string \<Rightarrow> ev list \<Rightarrow> ev list \<Rightarrow> effect list" where
  "frames jup i h m acc [] = []"
| "frames jup i h m acc (e # es) =
     (if jup then [ClearOutput] else []) @
     [ClearScreen, Print (''Job ID: '' @ i), Print (''HPC: '' @ h), Print (''Maintainer: '' @ m),
      Table jup [''types'', ''message'', ''time''] (map event_row (acc @ [e]))]
     @ frames jup i h m (acc @ [e]) es"

fun live_spec ::
  "bool \<Rightarrow> string \<Rightarrow> string \<Rightarrow> string \<Rightarrow> pyval \<Rightarrow> int \<Rightarrow> ev list \<Rightarrow> ev list list
     \<Rightarrow> effect list \<times> ev list list \<times> bool" where
  "live_spec jup i h m tok rate acc [] =
     ([Call (Request ''GET'' (''/job/'' @ i) (PDict [(''accessToken'', tok)]))], [], False)"
| "live_spec jup i h m tok rate acc (b # bs) =
     (let new = drop (length acc) b;
          shown = Call (Request ''GET'' (''/job/'' @ i) (PDict [(''accessToken'', tok)]))
                    # frames jup i h m acc new
      in if \<exists>e \<in> set new. ends_job e then (shown, bs, True)
         else (case live_spec jup i h m tok rate (acc @ new) bs of
                 (t, r, f) \<Rightarrow> (shown @ Sleep rate # t, r, f)))"

lemma events_step_ok:
  assumes "job_id j = PStr i" "hpc j = PStr h" "maintainer j = PStr m"
    and "length acc < length b"
  shows "events_step j (PList (map event_json b)) (length acc) (map event_row acc) isEnd w =
     (Inr (map event_row (acc @ [b ! length acc]), isEnd \<or> ends_job (b ! length acc)),
      w\<lparr>trace := trace w @ frames (isJupyter j) i h m acc [b ! length acc]\<rparr>)"
proof -
  obtain t ms c where e: "b ! length acc = (t, ms, c)" by (cases "b ! length acc")
  show ?thesis
    using assms e
    by (simp add: events_step_def clear_def print_identity_def run_defs event_json_def event_def
          event_row_def is_terminal_def ends_job_def Let_def)
qed

lemma frames_append:
  "frames jup i h m acc (xs @ ys) = frames jup i h m acc xs @ frames jup i h m (acc @ xs) ys"
  by (induction xs arbitrary: acc) simp_all

lemma events_batch_ok:
  assumes "job_id j = PStr i" "hpc j = PStr h" "maintainer j = PStr m"
  shows "events_batch j (PList (map event_json b)) (length acc) (map event_row acc) isEnd w =
     (Inr (map event_row (acc @ drop (length acc) b),
           isEnd \<or> (\<exists>e \<in> set (drop (length acc) b). ends_job e)),
      w\<lparr>trace := trace w @ frames (isJupyter j) i h m acc (drop (length acc) b)\<rparr>)"
proof (induction "length b - length acc" arbitrary: acc isEnd w)
  case 0
  then have "drop (length acc) b = []" by simp
  moreover have "\<not> length acc < length b" using 0 by simp
  ultimately show ?case
    by (subst events_batch.simps) simp
next
  case (Suc n)
  then have lt: "length acc < length b" by simp
  let ?e = "b ! length acc"
  have d: "drop (length acc) b = ?e # drop (Suc (length acc)) b"
    using lt by (simp add: Cons_nth_drop_Suc)
  have n: "n = length b - length (acc @ [?e])" using Suc(2) by simp
  have step: "events_batch j (PList (map event_json b)) (length acc) (map event_row acc) isEnd w =
     events_batch j (PList (map event_json b)) (length (acc @ [?e])) (map event_row (acc @ [?e]))
       (isEnd \<or> ends_job ?e) (w\<lparr>trace := trace w @ frames (isJupyter j) i h m acc [?e]\<rparr>)"
    using lt by (subst events_batch.simps) (simp add: events_step_ok [OF assms lt])
  show ?case
    unfolding step Suc(1) [OF n] d
    by (simp add: frames_append [of _ _ _ _ acc "[?e]", simplified])
qed


lemma events_poll_ok:
  assumes "job_id j = PStr i" "hpc j = PStr h" "maintainer j = PStr m" and "0 \<le> rate"
    and "replies w = poll_reply b # rs"
  shows "events_poll j rate (map event_row acc) False w =
     (Inr (map event_row (acc @ drop (length acc) b), \<exists>e \<in> set (drop (length acc) b). ends_job e),
      w\<lparr>replies := rs,
        trace := trace w @
          Call (Request ''GET'' (''/job/'' @ i) (PDict [(''accessToken'', getAccessToken w (JAT j))]))
            # frames (isJupyter j) i h m acc (drop (length acc) b)
          @ (if \<exists>e \<in> set (drop (length acc) b). ends_job e then [] else [Sleep rate])\<rparr>)"
  using assms(4,5)
  by (simp add: events_poll_def status_live [OF assms(1) assms(5)] bnd_def lift_def ret_def
        poll_reply_def status_reply_def
        events_batch_ok [OF assms(1-3), where isEnd = False, simplified] sleep_def emit_def)

lemma events_loop_ok:
  assumes "job_id j = PStr i" "hpc j = PStr h" "maintainer j = PStr m" and "0 \<le> rate"
  shows "replies w = map poll_reply bs \<Longrightarrow>
     events_loop j rate (map event_row acc) False w =
       (case live_spec (isJupyter j) i h m (getAccessToken w (JAT j)) rate acc bs of
          (t, r, f) \<Rightarrow> (if f then Inr PNone else Inl NoReply,
                        w\<lparr>replies := map poll_reply r, trace := trace w @ t\<rparr>))"
proof (induction bs arbitrary: acc w)
  case Nil
  then show ?case
    using assms(1)
    by (subst events_loop.simps) (simp add: events_poll_def status_def run_defs)
next
  case (Cons b bs)
  let ?new = "drop (length acc) b"
  let ?call = "Call (Request ''GET'' (''/job/'' @ i) (PDict [(''accessToken'', getAccessToken w (JAT j))]))"
  from Cons.prems have r: "replies w = poll_reply b # map poll_reply bs" by simp
  note poll = events_poll_ok [OF assms r, of acc]
  show ?case
  proof (cases "\<exists>e \<in> set ?new. ends_job e")
    case True
    then show ?thesis
      by (subst events_loop.simps, simp add: poll)
         (subst events_loop.simps, simp)
  next
    case False
    let ?w1 = "w\<lparr>replies := map poll_reply bs,
                 trace := trace w @ ?call # frames (isJupyter j) i h m acc ?new @ [Sleep rate]\<rparr>"
    have r1: "replies ?w1 = map poll_reply bs" by simp
    have tok: "getAccessToken ?w1 (JAT j) = getAccessToken w (JAT j)" by simp
    have loop: "events_loop j rate (map event_row acc) False w =
                  events_loop j rate (map event_row (acc @ ?new)) False ?w1"
      using False by (subst events_loop.simps) (simp add: poll)
    obtain t r f where ls:
      "live_spec (isJupyter j) i h m (getAccessToken w (JAT j)) rate (acc @ ?new) bs = (t, r, f)"
      by (cases "live_spec (isJupyter j) i h m (getAccessToken w (JAT j)) rate (acc @ ?new) bs")
    have spec: "live_spec (isJupyter j) i h m (getAccessToken w (JAT j)) rate acc (b # bs) =
                  (?call # frames (isJupyter j) i h m acc ?new @ Sleep rate # t, r, f)"
      using False ls by (simp add: Let_def)
    have "events_loop j rate (map event_row (acc @ ?new)) False ?w1 =
            (if f then Inr PNone else Inl NoReply,
             ?w1\<lparr>replies := map poll_reply r, trace := trace ?w1 @ t\<rparr>)"
      using Cons.IH [OF r1, of "acc @ ?new"] ls by (simp add: tok)
    then show ?thesis unfolding loop spec by simp
  qed
qed


text \<open>The events seen after a list of polls, and the status requests and the sleeps
  of a trace.\<close>

fun seen :: "ev list \<Rightarrow> ev list list \<Rightarrow> ev list" where
  "seen acc [] = acc"
| "seen acc (b # bs) = seen (acc @ drop (length acc) b) bs"

lemma seen_extends: "\<exists>ys. seen acc bs = acc @ ys"
proof (induction bs arbitrary: acc)
  case Nil
  then show ?case by simp
next
  case (Cons b bs)
  from Cons.IH [of "acc @ drop (length acc) b"] show ?case by auto
qed

fun polls :: "effect list \<Rightarrow> call list" where
  "polls [] = []"
| "polls (Call c # t) = c # polls t"
| "polls (e # t) = polls t"

fun sleeps :: "effect list \<Rightarrow> int list" where
  "sleeps [] = []"
| "sleeps (Sleep s # t) = s # sleeps t"
| "sleeps (e # t) = sleeps t"

lemma polls_append: "polls (xs @ ys) = polls xs @ polls ys"
  by (induction xs rule: polls.induct) simp_all

lemma sleeps_append: "sleeps (xs @ ys) = sleeps xs @ sleeps ys"
  by (induction xs rule: sleeps.induct) simp_all

lemma frames_polls: "polls (frames jup i h m acc new) = []"
  by (induction new arbitrary: acc) (simp_all add: polls_append)

lemma frames_sleeps: "sleeps (frames jup i h m acc new) = []"
  by (induction new arbitrary: acc) (simp_all add: sleeps_append)

lemma live_spec_stops:
  assumes "\<forall>e \<in> set (drop (length acc) (seen acc pre)). \<not> ends_job e"
    and "\<exists>e \<in> set (drop (length (seen acc pre)) b). ends_job e"
  shows "\<exists>t. live_spec jup i h m tok rate acc (pre @ b # rest) = (t, rest, True)
            \<and> polls t = replicate (Suc (length pre))
                  (Request ''GET'' (''/job/'' @ i) (PDict [(''accessToken'', tok)]))
            \<and> sleeps t = replicate (length pre) rate"
  using assms
proof (induction pre arbitrary: acc)
  case Nil
  then show ?case by (simp add: Let_def frames_polls frames_sleeps polls_append sleeps_append)
next
  case (Cons p pre)
  let ?new = "drop (length acc) p"
  obtain ys where ys: "seen (acc @ ?new) pre = (acc @ ?new) @ ys"
    using seen_extends by blast
  from Cons.prems(1) ys have quiet: "\<forall>e \<in> set ?new. \<not> ends_job e"
    and later: "\<forall>e \<in> set (drop (length (acc @ ?new)) (seen (acc @ ?new) pre)). \<not> ends_job e"
    by auto
  from Cons.prems(2) have last: "\<exists>e \<in> set (drop (length (seen (acc @ ?new) pre)) b). ends_job e"
    by simp
  from Cons.IH [OF later last] obtain t where
    t: "live_spec jup i h m tok rate (acc @ ?new) (pre @ b # rest) = (t, rest, True)"
    and c: "polls t = replicate (Suc (length pre))
                  (Request ''GET'' (''/job/'' @ i) (PDict [(''accessToken'', tok)]))"
    and sl: "sleeps t = replicate (length pre) rate"
    by blast
  from quiet t have "live_spec jup i h m tok rate acc ((p # pre) @ b # rest) =
     (Call (Request ''GET'' (''/job/'' @ i) (PDict [(''accessToken'', tok)]))
        # frames jup i h m acc ?new @ Sleep rate # t, rest, True)"
    by (simp add: Let_def)
  with c sl show ?case by (simp add: frames_polls frames_sleeps polls_append sleeps_append replicate_app_Cons_same)
qed

text \<open>
  Claim C1, as stated: the polling loop of \<^verbatim>\<open>events\<close> ends the instant an event of type
  \<^verbatim>\<open>JOB_ENDED\<close> or \<^verbatim>\<open>JOB_FAILED\<close> is observed. The inner loop (lines 138 to 155) only
  records the observation in \<^verbatim>\<open>isEnd\<close> and goes on to the end of the batch; the test
  that leaves the loop is the one of the outer \<^verbatim>\<open>while\<close>. When one poll returns
  \<^verbatim>\<open>JOB_ENDED\<close> followed by an \<^verbatim>\<open>INFO\<close> event, the \<^verbatim>\<open>INFO\<close> event is emitted after
  \<^verbatim>\<open>JOB_ENDED\<close> has been observed.
\<close>

theorem events_after_the_end_are_emitted_counterexample:
  "ends_job (''JOB_ENDED'', ''done'', ''t1'') \<and> \<not> ends_job (''INFO'', ''late'', ''t2'')
   \<and> events example_job True 10
       (scripted (map poll_reply [[(''JOB_ENDED'', ''done'', ''t1''), (''INFO'', ''late'', ''t2'')], []]))
     = (Inr PNone,
        \<lparr>replies = [poll_reply []],
         trace = [Call (Request ''GET'' ''/job/7'' (PDict [(''accessToken'', PStr ''token'')])),
                  ClearScreen, Print ''Job ID: 7'', Print ''HPC: keeling'', Print ''Maintainer: SUMMA'',
                  Table False [''types'', ''message'', ''time'']
                    [PList [PStr ''JOB_ENDED'', PStr ''done'', PStr ''t1'']],
                  ClearScreen, Print ''Job ID: 7'', Print ''HPC: keeling'', Print ''Maintainer: SUMMA'',
                  Table False [''types'', ''message'', ''time'']
                    [PList [PStr ''JOB_ENDED'', PStr ''done'', PStr ''t1''],
                     PList [PStr ''INFO'', PStr ''late'', PStr ''t2'']]],
         files = Map.empty, getAccessToken = (\<lambda>t. PStr ''token'')\<rparr>)"
proof -
  have i: "job_id example_job = PStr ''7''" and h: "hpc example_job = PStr ''keeling''"
    and m: "maintainer example_job = PStr ''SUMMA''"
    by (simp_all add: example_job_def)
  have r: "(0::int) \<le> 10" by simp
  have rep: "replies (scripted (map poll_reply [[(''JOB_ENDED'', ''done'', ''t1''), (''INFO'', ''late'', ''t2'')], []]))
      = map poll_reply [[(''JOB_ENDED'', ''done'', ''t1''), (''INFO'', ''late'', ''t2'')], []]"
    by (simp add: scripted_def)
  have j: "isJupyter example_job = False" by (simp add: example_job_def)
  show ?thesis
    using events_loop_ok [OF i h m r rep, of "[]"]
    by (simp add: events_def j Let_def ends_job_def event_row_def scripted_def)
qed

text \<open>
  Claim C1, amended: for every sequence of status replies, \<^verbatim>\<open>events\<close> with live output
  starts from no event seen, emits each event beyond the ones seen incrementally and in
  order, and leaves the polling loop at the end of the first batch in which a new event
  has type \<^verbatim>\<open>JOB_ENDED\<close> or \<^verbatim>\<open>JOB_FAILED\<close>: the events that follow it in that batch are
  still emitted, and then there is no sleep and no further poll. The run is the one
  \<open>live_spec\<close> describes. When the batches are \<open>pre\<close>, then \<open>b\<close>, then \<open>rest\<close>, no event
  seen in \<open>pre\<close> ends the job and a new event of \<open>b\<close> does, the call returns \<^verbatim>\<open>None\<close>
  after one request per batch of \<open>pre\<close> and one for \<open>b\<close>, with one sleep after each
  batch of \<open>pre\<close> and none after \<open>b\<close>, and \<open>rest\<close> is not asked for. The job's \<^verbatim>\<open>id\<close>,
  \<^verbatim>\<open>hpc\<close> and \<^verbatim>\<open>maintainer\<close> are strings and the refresh rate is not negative.
\<close>

theorem live_events_follow_the_batches:
  assumes "job_id j = PStr i" "hpc j = PStr h" "maintainer j = PStr m" and "0 \<le> rate"
    and "replies w = map poll_reply bs"
  shows "events j True rate w =
       (case live_spec (isJupyter j) i h m (getAccessToken w (JAT j)) rate [] bs of
          (t, r, f) \<Rightarrow> (if f then Inr PNone else Inl NoReply,
                        w\<lparr>replies := map poll_reply r, trace := trace w @ t\<rparr>))
     \<and> (\<forall>pre b rest.
          bs = pre @ b # rest \<and> (\<forall>e \<in> set (seen [] pre). \<not> ends_job e)
            \<and> (\<exists>e \<in> set (drop (length (seen [] pre)) b). ends_job e) \<longrightarrow>
          (\<exists>t. events j True rate w =
                  (Inr PNone, w\<lparr>replies := map poll_reply rest, trace := trace w @ t\<rparr>)
             \<and> polls t = replicate (Suc (length pre))
                  (Request ''GET'' (''/job/'' @ i) (PDict [(''accessToken'', getAccessToken w (JAT j))]))
             \<and> sleeps t = replicate (length pre) rate))"
proof (intro conjI allI impI)
  show run: "events j True rate w =
       (case live_spec (isJupyter j) i h m (getAccessToken w (JAT j)) rate [] bs of
          (t, r, f) \<Rightarrow> (if f then Inr PNone else Inl NoReply,
                        w\<lparr>replies := map poll_reply r, trace := trace w @ t\<rparr>))"
    using events_loop_ok [OF assms(1-4) assms(5), of "[]"] by (simp add: events_def)
  fix pre b rest
  assume a: "bs = pre @ b # rest \<and> (\<forall>e \<in> set (seen [] pre). \<not> ends_job e)
            \<and> (\<exists>e \<in> set (drop (length (seen [] pre)) b). ends_job e)"
  then have q: "\<forall>e \<in> set (drop (length ([]::ev list)) (seen [] pre)). \<not> ends_job e"
    and l: "\<exists>e \<in> set (drop (length (seen [] pre)) b). ends_job e"
    by simp_all
  from live_spec_stops [OF q l, of "isJupyter j" i h m "getAccessToken w (JAT j)" rate rest]
  obtain t where t: "live_spec (isJupyter j) i h m (getAccessToken w (JAT j)) rate [] (pre @ b # rest) = (t, rest, True)"
    and c: "polls t = replicate (Suc (length pre))
                  (Request ''GET'' (''/job/'' @ i) (PDict [(''accessToken'', getAccessToken w (JAT j))]))"
    and sl: "sleeps t = replicate (length pre) rate"
    by blast
  from run a t have "events j True rate w =
       (Inr PNone, w\<lparr>replies := map poll_reply rest, trace := trace w @ t\<rparr>)" by simp
  with c sl show "\<exists>t. events j True rate w =
                  (Inr PNone, w\<lparr>replies := map poll_reply rest, trace := trace w @ t\<rparr>)
             \<and> polls t = replicate (Suc (length pre))
                  (Request ''GET'' (''/job/'' @ i) (PDict [(''accessToken'', getAccessToken w (JAT j))]))
             \<and> sleeps t = replicate (length pre) rate"
    by blast
qed


theorem live_events_follow_the_batches_witness:
  "events example_job True 10
       (scripted (map poll_reply [[], [(''INFO'', ''started'', ''t1''), (''JOB_ENDED'', ''done'', ''t2'')],
                                  [(''INFO'', ''late'', ''t3'')]]))
     = (Inr PNone,
        \<lparr>replies = [poll_reply [(''INFO'', ''late'', ''t3'')]],
         trace = [Call (Request ''GET'' ''/job/7'' (PDict [(''accessToken'', PStr ''token'')])),
                  Sleep 10,
                  Call (Request ''GET'' ''/job/7'' (PDict [(''accessToken'', PStr ''token'')])),
                  ClearScreen, Print ''Job ID: 7'', Print ''HPC: keeling'', Print ''Maintainer: SUMMA'',
                  Table False [''types'', ''message'', ''time'']
                    [PList [PStr ''INFO'', PStr ''started'', PStr ''t1'']],
                  ClearScreen, Print ''Job ID: 7'', Print ''HPC: keeling'', Print ''Maintainer: SUMMA'',
                  Table False [''types'', ''message'', ''time'']
                    [PList [PStr ''INFO'', PStr ''started'', PStr ''t1''],
                     PList [PStr ''JOB_ENDED'', PStr ''done'', PStr ''t2'']]],
         files = Map.empty, getAccessToken = (\<lambda>t. PStr ''token'')\<rparr>)
   \<and> (\<exists>t. events example_job True 10
       (scripted (map poll_reply [[], [(''INFO'', ''started'', ''t1''), (''JOB_ENDED'', ''done'', ''t2'')],
                                  [(''INFO'', ''late'', ''t3'')]]))
         = (Inr PNone, \<lparr>replies = [poll_reply [(''INFO'', ''late'', ''t3'')]], trace = t,
              files = Map.empty, getAccessToken = (\<lambda>t. PStr ''token'')\<rparr>)
       \<and> polls t = [Request ''GET'' ''/job/7'' (PDict [(''accessToken'', PStr ''token'')]),
                     Request ''GET'' ''/job/7'' (PDict [(''accessToken'', PStr ''token'')])]
       \<and> sleeps t = [10])"
proof -
  let ?bs = "[[], [(''INFO'', ''started'', ''t1''), (''JOB_ENDED'', ''done'', ''t2'')],
              [(''INFO'', ''late'', ''t3'')]] :: ev list list"
  have i: "job_id example_job = PStr ''7''" and h: "hpc example_job = PStr ''keeling''"
    and m: "maintainer example_job = PStr ''SUMMA''"
    by (simp_all add: example_job_def)
  have r: "(0::int) \<le> 10" by simp
  have rep: "replies (scripted (map poll_reply ?bs)) = map poll_reply ?bs"
    by (simp add: scripted_def)
  have j: "isJupyter example_job = False" by (simp add: example_job_def)
  note t = live_events_follow_the_batches [OF i h m r rep]
  have split: "?bs = [[]] @ [(''INFO'', ''started'', ''t1''), (''JOB_ENDED'', ''done'', ''t2'')]
                 # [[(''INFO'', ''late'', ''t3'')]]
      \<and> (\<forall>e \<in> set (seen [] [[]]). \<not> ends_job e)
      \<and> (\<exists>e \<in> set (drop (length (seen [] [[]]))
                  [(''INFO'', ''started'', ''t1''), (''JOB_ENDED'', ''done'', ''t2'')]). ends_job e)"
    by (simp add: ends_job_def)
  from t [THEN conjunct1]
  have a: "events example_job True 10 (scripted (map poll_reply ?bs))
     = (Inr PNone,
        \<lparr>replies = [poll_reply [(''INFO'', ''late'', ''t3'')]],
         trace = [Call (Request ''GET'' ''/job/7'' (PDict [(''accessToken'', PStr ''token'')])),
                  Sleep 10,
                  Call (Request ''GET'' ''/job/7'' (PDict [(''accessToken'', PStr ''token'')])),
                  ClearScreen, Print ''Job ID: 7'', Print ''HPC: keeling'', Print ''Maintainer: SUMMA'',
                  Table False [''types'', ''message'', ''time'']
                    [PList [PStr ''INFO'', PStr ''started'', PStr ''t1'']],
                  ClearScreen, Print ''Job ID: 7'', Print ''HPC: keeling'', Print ''Maintainer: SUMMA'',
                  Table False [''types'', ''message'', ''time'']
                    [PList [PStr ''INFO'', PStr ''started'', PStr ''t1''],
                     PList [PStr ''JOB_ENDED'', PStr ''done'', PStr ''t2'']]],
         files = Map.empty, getAccessToken = (\<lambda>t. PStr ''token'')\<rparr>)"
    by (simp add: j Let_def ends_job_def event_row_def scripted_def)
  from t [THEN conjunct2, rule_format, OF split]
  obtain t' where "events example_job True 10 (scripted (map poll_reply ?bs)) =
      (Inr PNone, scripted (map poll_reply ?bs)
          \<lparr>replies := map poll_reply [[(''INFO'', ''late'', ''t3'')]],
            trace := trace (scripted (map poll_reply ?bs)) @ t'\<rparr>)"
    and "polls t' = replicate (Suc (length [[]::ev list]))
           (Request ''GET'' (''/job/'' @ ''7'')
              (PDict [(''accessToken'', getAccessToken (scripted (map poll_reply ?bs)) (JAT example_job))]))"
    and "sleeps t' = replicate (length [[]::ev list]) 10"
    by blast
  then have b: "\<exists>t. events example_job True 10 (scripted (map poll_reply ?bs))
         = (Inr PNone, \<lparr>replies = [poll_reply [(''INFO'', ''late'', ''t3'')]], trace = t,
              files = Map.empty, getAccessToken = (\<lambda>t. PStr ''token'')\<rparr>)
       \<and> polls t = [Request ''GET'' ''/job/7'' (PDict [(''accessToken'', PStr ''token'')]),
                     Request ''GET'' ''/job/7'' (PDict [(''accessToken'', PStr ''token'')])]
       \<and> sleeps t = [10]"
    by (simp add: scripted_def)
  from a b show ?thesis by blast
qed

end
